theory Spec2Isabelle
  imports Complex_Main "HOL-Library.Char_ord" "HOL-Library.List_Lexorder"
    "HOL-Library.Product_Lexorder" "HOL-Library.AList"
begin

section \<open>The file system as pathlib shows it\<close>

text \<open>
  The walkers of \<^verbatim>\<open>directory_tree_generator.py\<close> and of \<^verbatim>\<open>method1\<close> .. \<^verbatim>\<open>method4\<close>
  read the file system only through \<^verbatim>\<open>pathlib.Path\<close>: \<^verbatim>\<open>exists\<close>, \<^verbatim>\<open>is_dir\<close>,
  \<^verbatim>\<open>is_file\<close>, \<^verbatim>\<open>iterdir\<close>, \<^verbatim>\<open>stat\<close>, \<^verbatim>\<open>name\<close> and \<^verbatim>\<open>str\<close>. A \<open>Path\<close> object is
  modelled by the entry it denotes in one unchanging snapshot of the file system:
  \<^item> \<open>File n p s\<close>: an entry that is not a directory, with base name \<open>n\<close>, path string
    \<open>p\<close> and the outcome \<open>s\<close> of \<^verbatim>\<open>stat()\<close> (an exception, or the size and the
    modification time); a dangling symbolic link is \<open>File n p (Inl FileNotFoundError)\<close>;
  \<^item> \<open>Dir n p s es\<close>: a directory whose \<^verbatim>\<open>iterdir()\<close> yields \<open>es\<close>, in the order the
    operating system lists them;
  \<^item> \<open>DirErr n p s e\<close>: a directory whose \<^verbatim>\<open>iterdir()\<close> raises \<open>e\<close>;
  \<^item> \<open>Missing n p\<close>: a path with nothing behind it.
  The predicates \<^verbatim>\<open>exists\<close>, \<^verbatim>\<open>is_dir\<close> and \<^verbatim>\<open>is_file\<close> never raise: they answer
  \<open>False\<close> where the entry cannot be examined. That is pathlib of Python 3.14; the
  earlier versions answer \<open>False\<close> when \<^verbatim>\<open>stat\<close> fails with \<^verbatim>\<open>ENOENT\<close>, \<^verbatim>\<open>ENOTDIR\<close>,
  \<^verbatim>\<open>EBADF\<close> or \<^verbatim>\<open>ELOOP\<close> (a missing entry, a dangling link) and raise the other
  errors. A file system is \<open>portable\<close> (below) when every \<^verbatim>\<open>stat\<close> that fails in it
  fails with \<^verbatim>\<open>FileNotFoundError\<close> or \<^verbatim>\<open>NotADirectoryError\<close>: on such a file system
  the three predicates answer the same in every version. Sizes and counts are
  integers, \<^verbatim>\<open>st_mtime\<close> is a real number that is only carried along.

  A character of a name or of a path is a Unicode code point below 256; names with
  other characters are outside the model. Strings compare by code point, as in
  Python. The line-drawing glyphs and the emoji lie outside that range and are
  written as their UTF-8 bytes: they are constants that the walkers only
  concatenate.
\<close>

datatype py_error = PermissionError | FileNotFoundError | NotADirectoryError | OSError

record stat_result =
  st_size :: int
  st_mtime :: real

datatype entry =
    File string string "py_error + stat_result"
  | Dir string string stat_result "entry list"
  | DirErr string string stat_result py_error
  | Missing string string

fun name :: "entry \<Rightarrow> string" where
  "name (File n p s) = n"
| "name (Dir n p s es) = n"
| "name (DirErr n p s e) = n"
| "name (Missing n p) = n"

fun str :: "entry \<Rightarrow> string" where
  "str (File n p s) = p"
| "str (Dir n p s es) = p"
| "str (DirErr n p s e) = p"
| "str (Missing n p) = p"

fun stat :: "entry \<Rightarrow> py_error + stat_result" where
  "stat (File n p s) = s"
| "stat (Dir n p s es) = Inr s"
| "stat (DirErr n p s e) = Inr s"
| "stat (Missing n p) = Inl FileNotFoundError"

definition exists :: "entry \<Rightarrow> bool" where
  "exists p = (case stat p of Inr s \<Rightarrow> True | Inl e \<Rightarrow> False)"

fun is_dir :: "entry \<Rightarrow> bool" where
  "is_dir (Dir n p s es) = True"
| "is_dir (DirErr n p s e) = True"
| "is_dir (File n p s) = False"
| "is_dir (Missing n p) = False"

fun is_file :: "entry \<Rightarrow> bool" where
  "is_file (File n p (Inr s)) = True"
| "is_file (File n p (Inl e)) = False"
| "is_file (Dir n p s es) = False"
| "is_file (DirErr n p s e) = False"
| "is_file (Missing n p) = False"

fun iterdir :: "entry \<Rightarrow> py_error + entry list" where
  "iterdir (Dir n p s es) = Inr es"
| "iterdir (DirErr n p s e) = Inl e"
| "iterdir (File n p (Inr s)) = Inl NotADirectoryError"
| "iterdir (File n p (Inl e)) = Inl e"
| "iterdir (Missing n p) = Inl FileNotFoundError"

text \<open>
  The errors of \<^verbatim>\<open>stat\<close> to which \<^verbatim>\<open>is_dir\<close>, \<^verbatim>\<open>is_file\<close> and \<^verbatim>\<open>exists\<close> answer
  \<open>False\<close> in every version of pathlib, and the file systems in which no \<^verbatim>\<open>stat\<close>
  fails otherwise.
\<close>

definition ignored_by_is_dir :: "py_error \<Rightarrow> bool" where
  "ignored_by_is_dir e = (e = FileNotFoundError \<or> e = NotADirectoryError)"

fun portable :: "entry \<Rightarrow> bool" where
  "portable (Dir n p s es) = list_all portable es"
| "portable (DirErr n p s e) = True"
| "portable (File n p (Inl e)) = ignored_by_is_dir e"
| "portable (File n p (Inr s)) = True"
| "portable (Missing n p) = True"

subsection \<open>Strings\<close>

text \<open>
  \<^verbatim>\<open>str.lower()\<close> on the code points below 256: the capital letters are \<^verbatim>\<open>A\<close> to
  \<^verbatim>\<open>Z\<close>, \<^verbatim>\<open>U+00C0\<close> to \<^verbatim>\<open>U+00D6\<close> and \<^verbatim>\<open>U+00D8\<close> to \<^verbatim>\<open>U+00DE\<close>; the small letter
  of each is 32 places later. Every other character is left as it is.
\<close>

definition lower_char :: "char \<Rightarrow> char" where
  "lower_char c =
     (if (CHR ''A'' \<le> c \<and> c \<le> CHR ''Z'') \<or> (CHR 0xC0 \<le> c \<and> c \<le> CHR 0xDE \<and> c \<noteq> CHR 0xD7)
      then char_of (of_char c + (32::nat)) else c)"

definition lower :: "string \<Rightarrow> string" where
  "lower s = map lower_char s"

text \<open>\<^verbatim>\<open>s.startswith('.')\<close>\<close>

fun startswith_dot :: "string \<Rightarrow> bool" where
  "startswith_dot [] = False"
| "startswith_dot (c # cs) = (c = CHR ''.'')"

text \<open>\<^verbatim>\<open>str(n)\<close> for an integer: the decimal digits, after the sign.\<close>

function digits :: "int \<Rightarrow> string" where
  "digits n =
     (if n < 10 then [char_of (48 + n)]
      else digits (n div 10) @ [char_of (48 + n mod 10)])"
  by pat_completeness auto
termination
  by (relation "measure nat") auto

declare digits.simps [simp del]

definition str_int :: "int \<Rightarrow> string" where
  "str_int i = (if i < 0 then CHR ''-'' # digits (- i) else digits i)"

text \<open>\<^verbatim>\<open>"\n".join(lines)\<close>\<close>

fun join_lines :: "string list \<Rightarrow> string" where
  "join_lines [] = []"
| "join_lines [l] = l"
| "join_lines (l # ls) = l @ [CHR 0x0A] @ join_lines ls"

text \<open>
  The glyphs of the tree drawing, as their UTF-8 bytes:
  the corner \<^verbatim>\<open>U+2514 U+2500 U+2500\<close> and a space, the tee \<^verbatim>\<open>U+251C U+2500 U+2500\<close>
  and a space, the vertical bar \<^verbatim>\<open>U+2502\<close> and three spaces, and four spaces.
\<close>

definition corner :: string where
  "corner = [CHR 0xE2, CHR 0x94, CHR 0x94, CHR 0xE2, CHR 0x94, CHR 0x80,
             CHR 0xE2, CHR 0x94, CHR 0x80, CHR '' '']"

definition tee :: string where
  "tee = [CHR 0xE2, CHR 0x94, CHR 0x9C, CHR 0xE2, CHR 0x94, CHR 0x80,
          CHR 0xE2, CHR 0x94, CHR 0x80, CHR '' '']"

definition bar :: string where
  "bar = [CHR 0xE2, CHR 0x94, CHR 0x82, CHR '' '', CHR '' '', CHR '' '']"

definition blank :: string where
  "blank = ''    ''"

text \<open>The emoji of the detailed tree: folder, page, lock and open folder.\<close>

definition folder_emoji :: string where
  "folder_emoji = [CHR 0xF0, CHR 0x9F, CHR 0x93, CHR 0x81]"

definition page_emoji :: string where
  "page_emoji = [CHR 0xF0, CHR 0x9F, CHR 0x93, CHR 0x84]"

definition lock_emoji :: string where
  "lock_emoji = [CHR 0xF0, CHR 0x9F, CHR 0x94, CHR 0x92]"

definition open_folder_emoji :: string where
  "open_folder_emoji = [CHR 0xF0, CHR 0x9F, CHR 0x93, CHR 0x82]"

text \<open>
  What the code takes from the clock and from floating-point formatting is a
  parameter of the model: the two renderings of \<^verbatim>\<open>datetime.now()\<close>, the formats
  \<^verbatim>\<open>f"{a/b:.1f}"\<close> and \<^verbatim>\<open>f"{a/b:.2f}"\<close>, and \<^verbatim>\<open>str\<close> of a float.
\<close>

record env =
  now_strftime :: string
  now_isoformat :: string
  fmt_1f :: "int \<Rightarrow> int \<Rightarrow> string"
  fmt_2f :: "int \<Rightarrow> int \<Rightarrow> string"
  str_float :: "real \<Rightarrow> string"

subsection \<open>Sorting siblings\<close>

text \<open>
  \<^verbatim>\<open>sorted(items, key=lambda x: (not x.is_dir(), x.name.lower()))\<close>, the key of every
  walker but the basic one. Python's sort is stable, as \<open>sort_key\<close> is; tuples compare
  lexicographically, \<open>False < True\<close>, strings by code point.
\<close>

definition sort_items :: "entry list \<Rightarrow> entry list" where
  "sort_items items = sort_key (\<lambda>x. (\<not> is_dir x, lower (name x))) items"

text \<open>
  \<^verbatim>\<open>sorted([item for item in current_path.iterdir()])\<close> of the basic walker: \<open>Path\<close>
  objects compare by their parts, which for the entries of one directory is the
  comparison of their names (case-sensitive on POSIX).
\<close>

definition sorted_paths :: "entry list \<Rightarrow> entry list" where
  "sorted_paths items = sort_key name items"

text \<open>
  A \<^verbatim>\<open>for\<close> loop whose body may raise: the state reached when the exception is
  raised is kept, since the body mutates shared variables.
\<close>

fun for_each :: "('a \<Rightarrow> 's \<Rightarrow> 's \<times> py_error option) \<Rightarrow> 'a list \<Rightarrow> 's \<Rightarrow> 's \<times> py_error option" where
  "for_each body [] s = (s, None)"
| "for_each body (x # xs) s =
     (case body x s of
        (s', None) \<Rightarrow> for_each body xs s'
      | (s', Some e) \<Rightarrow> (s', Some e))"

lemma for_each_cong [fundef_cong]:
  assumes "xs = ys" and "s = t" and "\<And>x u. x \<in> set ys \<Longrightarrow> f x u = g x u"
  shows "for_each f xs s = for_each g ys t"
  using assms(3) unfolding assms(1,2)
  by (induction ys arbitrary: t) (auto split: prod.splits option.splits)

lemma enumerate_member: "(i, x) \<in> set (enumerate n xs) \<Longrightarrow> x \<in> set xs"
  by (auto simp: in_set_enumerate_eq)

lemma iterdir_smaller: "iterdir p = Inr items \<Longrightarrow> x \<in> set items \<Longrightarrow> size x < size p"
  by (cases p rule: iterdir.cases) (auto simp: less_Suc_eq_le size_list_estimation')

lemma set_sort_items [simp]: "set (sort_items items) = set items"
  by (simp add: sort_items_def)

lemma set_sorted_paths [simp]: "set (sorted_paths items) = set items"
  by (simp add: sorted_paths_def)

section \<open>JSON and XML export: \<^verbatim>\<open>directory_to_dict\<close>\<close>

text \<open>
  The dictionaries \<^verbatim>\<open>directory_to_dict\<close> builds have four shapes:
  \<^item> \<open>DirectoryD name path size modified children\<close> for
    \<^verbatim>\<open>{'name', 'path', 'type': 'directory', 'size', 'modified', 'children'}\<close>;
  \<^item> \<open>FileD name path size modified\<close> for
    \<^verbatim>\<open>{'name', 'path', 'type': 'file', 'size', 'modified'}\<close>;
  \<^item> \<open>FileErrorD name\<close> for \<^verbatim>\<open>{'name', 'type': 'file', 'error': 'Permission denied'}\<close>;
  \<^item> \<open>ErrorD\<close> for \<^verbatim>\<open>{'error': 'Permission denied'}\<close>.
\<close>

datatype tree_dict =
    DirectoryD string string int real "tree_dict list"
  | FileD string string int real
  | FileErrorD string
  | ErrorD

text \<open>\<^verbatim>\<open>child_dict['size']\<close>, read for the dictionary of a directory only.\<close>

fun dict_size :: "tree_dict \<Rightarrow> int" where
  "dict_size (DirectoryD n p sz m cs) = sz"
| "dict_size (FileD n p sz m) = sz"
| "dict_size (FileErrorD n) = 0"
| "dict_size ErrorD = 0"

fun dict_children :: "tree_dict \<Rightarrow> tree_dict list" where
  "dict_children (DirectoryD n p sz m cs) = cs"
| "dict_children (FileD n p sz m) = []"
| "dict_children (FileErrorD n) = []"
| "dict_children ErrorD = []"

text \<open>\<^verbatim>\<open>d['children'].append(c)\<close> and \<^verbatim>\<open>d['size'] += k\<close>\<close>

fun append_child :: "tree_dict \<Rightarrow> tree_dict \<Rightarrow> tree_dict" where
  "append_child (DirectoryD n p sz m cs) c = DirectoryD n p sz m (cs @ [c])"
| "append_child d c = d"

fun add_size :: "tree_dict \<Rightarrow> int \<Rightarrow> tree_dict" where
  "add_size (DirectoryD n p sz m cs) k = DirectoryD n p (sz + k) m cs"
| "add_size d k = d"

text \<open>
  \<^verbatim>\<open>directory_to_dict(path, max_depth=None, current_depth=0)\<close>. Nothing in it
  raises on the snapshot: \<^verbatim>\<open>path.stat()\<close> is guarded by \<^verbatim>\<open>path.exists()\<close>, the
  listing by \<^verbatim>\<open>except (PermissionError, OSError)\<close>, the \<^verbatim>\<open>stat\<close> of a file by a
  bare \<^verbatim>\<open>except\<close>.
\<close>

function directory_to_dict :: "entry \<Rightarrow> int option \<Rightarrow> nat \<Rightarrow> tree_dict" where
  "directory_to_dict path max_depth current_depth =
    (let d = DirectoryD (name path) (str path) 0
               (if exists path then (case stat path of Inr s \<Rightarrow> st_mtime s | Inl e \<Rightarrow> 0) else 0)
               []
     in if max_depth \<noteq> None \<and> int current_depth \<ge> the max_depth then d
        else (case iterdir path of
                Inl e \<Rightarrow> append_child d ErrorD
              | Inr items \<Rightarrow>
                  foldl (\<lambda>d item.
                     if is_dir item then
                       (let child_dict = directory_to_dict item max_depth (current_depth + 1)
                        in add_size (append_child d child_dict) (dict_size child_dict))
                     else (case stat item of
                             Inr st \<Rightarrow>
                               add_size
                                 (append_child d
                                    (FileD (name item) (str item) (st_size st) (st_mtime st)))
                                 (st_size st)
                           | Inl e \<Rightarrow> append_child d (FileErrorD (name item))))
                    d (sort_items items)))"
  by pat_completeness auto
termination
  by (relation "measure (\<lambda>(p, m, d). size p)") (auto simp: iterdir_smaller)

text \<open>
  \<^verbatim>\<open>save_tree_json\<close>: the dictionary of the root with the key \<^verbatim>\<open>'metadata'\<close> added,
  which is what \<^verbatim>\<open>json.dump\<close> receives. The existence of the root is not tested.
\<close>

record json_document =
  tree_dict :: tree_dict
  metadata_generated :: string
  metadata_source_path :: string
  metadata_max_depth :: "int option"

definition save_tree_json :: "env \<Rightarrow> entry \<Rightarrow> int option \<Rightarrow> json_document" where
  "save_tree_json env start_path max_depth =
     \<lparr>tree_dict = directory_to_dict start_path max_depth 0,
      metadata_generated = now_isoformat env,
      metadata_source_path = str start_path,
      metadata_max_depth = max_depth\<rparr>"

text \<open>
  \<^verbatim>\<open>save_tree_xml\<close>: an element has a tag, attributes (a dictionary: setting a key
  again overwrites its value in place) and sub-elements.
\<close>

datatype xml_element = Element string "(string \<times> string) list" "xml_element list"

fun element_set :: "string \<Rightarrow> string \<Rightarrow> xml_element \<Rightarrow> xml_element" where
  "element_set k v (Element tag attrs subs) = Element tag (AList.update k v attrs) subs"

fun sub_element :: "xml_element \<Rightarrow> xml_element \<Rightarrow> xml_element" where
  "sub_element (Element tag attrs subs) child = Element tag attrs (subs @ [child])"

fun element_get :: "xml_element \<Rightarrow> string \<Rightarrow> string option" where
  "element_get (Element tag attrs subs) k = map_of attrs k"

text \<open>\<^verbatim>\<open>child.get('type', 'item')\<close>\<close>

fun child_type :: "tree_dict \<Rightarrow> string" where
  "child_type (DirectoryD n p sz m cs) = ''directory''"
| "child_type (FileD n p sz m) = ''file''"
| "child_type (FileErrorD n) = ''file''"
| "child_type ErrorD = ''item''"

text \<open>
  \<^verbatim>\<open>dict_to_xml(element, data)\<close> goes through the keys in insertion order; the keys
  \<^verbatim>\<open>'type'\<close> and \<^verbatim>\<open>'children'\<close> set no attribute.
\<close>

fun dict_to_xml :: "env \<Rightarrow> xml_element \<Rightarrow> tree_dict \<Rightarrow> xml_element" where
  "dict_to_xml env element (DirectoryD n p sz m cs) =
     foldl (\<lambda>el child. sub_element el (dict_to_xml env (Element (child_type child) [] []) child))
       (element_set ''modified'' (str_float env m)
         (element_set ''size'' (str_int sz)
           (element_set ''path'' p
             (element_set ''name'' n element))))
       cs"
| "dict_to_xml env element (FileD n p sz m) =
     element_set ''modified'' (str_float env m)
       (element_set ''size'' (str_int sz)
         (element_set ''path'' p
           (element_set ''name'' n element)))"
| "dict_to_xml env element (FileErrorD n) =
     element_set ''error'' ''Permission denied'' (element_set ''name'' n element)"
| "dict_to_xml env element ErrorD = element_set ''error'' ''Permission denied'' element"

text \<open>
  The root element as it is before pretty-printing.
  \<^verbatim>\<open>root.set('max_depth', str(max_depth) if max_depth else 'unlimited')\<close>: the test
  is the truth value of \<^verbatim>\<open>max_depth\<close>, false for \<^verbatim>\<open>None\<close> and for \<^verbatim>\<open>0\<close>.
\<close>

definition truthy :: "int option \<Rightarrow> bool" where
  "truthy v = (case v of None \<Rightarrow> False | Some i \<Rightarrow> i \<noteq> 0)"

definition save_tree_xml :: "env \<Rightarrow> entry \<Rightarrow> int option \<Rightarrow> xml_element" where
  "save_tree_xml env start_path max_depth =
     (let tree_dict = directory_to_dict start_path max_depth 0;
          root = Element ''directory_tree'' [] [];
          root = element_set ''generated'' (now_isoformat env) root;
          root = element_set ''path'' (str start_path) root;
          root = element_set ''max_depth''
                   (if truthy max_depth then str_int (the max_depth) else ''unlimited'') root
      in dict_to_xml env root tree_dict)"

section \<open>Text walkers\<close>

text \<open>
  \<^verbatim>\<open>try: ... except PermissionError: handler\<close> around a block that left the state \<open>s\<close>
  and maybe an exception: a \<^verbatim>\<open>PermissionError\<close> is handled, any other exception
  goes on to the caller.
\<close>

definition except_PermissionError ::
  "('s \<Rightarrow> 's) \<Rightarrow> 's \<times> py_error option \<Rightarrow> 's \<times> py_error option" where
  "except_PermissionError handler r =
     (case r of
        (s, None) \<Rightarrow> (s, None)
      | (s, Some e) \<Rightarrow> if e = PermissionError then (handler s, None) else (s, Some e))"

subsection \<open>The basic tree: \<^verbatim>\<open>walk_directory\<close>\<close>

function walk_directory ::
  "int option \<Rightarrow> entry \<Rightarrow> string \<Rightarrow> nat \<Rightarrow> string list \<Rightarrow> string list \<times> py_error option" where
  "walk_directory max_depth current_path prefix depth tree_lines =
    (if max_depth \<noteq> None \<and> int depth > the max_depth then (tree_lines, None)
     else except_PermissionError (\<lambda>ls. ls @ [prefix @ corner @ ''[Permission Denied]''])
       (case iterdir current_path of
          Inl e \<Rightarrow> (tree_lines, Some e)
        | Inr listing \<Rightarrow>
            (let items = sorted_paths listing
             in for_each (\<lambda>(i, item) tree_lines.
                  let is_last = (int i = int (length items) - 1);
                      connector = (if is_last then corner else tee);
                      tree_lines = tree_lines @ [prefix @ connector @ name item]
                  in if is_dir item then
                       (let extension = (if is_last then blank else bar)
                        in walk_directory max_depth item (prefix @ extension) (depth + 1) tree_lines)
                     else (tree_lines, None))
                (enumerate 0 items) tree_lines)))"
  by pat_completeness auto
termination
  by (relation "measure (\<lambda>(m, p, pre, d, ls). size p)")
     (auto dest!: enumerate_member simp: iterdir_smaller)


text \<open>
  \<^verbatim>\<open>generate_directory_tree\<close> of \<^verbatim>\<open>method1/directory_tree.py\<close>: the root is tested,
  its name is the first line, the walk follows. The result is \<^verbatim>\<open>tree_str\<close>; an
  exception that leaves the function is the left summand.
\<close>

definition generate_directory_tree_method1 :: "entry \<Rightarrow> int option \<Rightarrow> py_error + string" where
  "generate_directory_tree_method1 start_path max_depth =
     (if \<not> exists start_path then Inl FileNotFoundError
      else
        (let tree_lines = [];
             tree_lines = tree_lines @
               [if is_dir start_path then name start_path @ ''/'' else name start_path]
         in case walk_directory max_depth start_path [] 0 tree_lines of
              (tree_lines, Some e) \<Rightarrow> Inl e
            | (tree_lines, None) \<Rightarrow> Inr (join_lines tree_lines)))"

text \<open>
  \<^verbatim>\<open>generate_directory_tree\<close> of \<^verbatim>\<open>directory_tree_generator.py\<close>: the same test of
  the root and the same nested \<^verbatim>\<open>walk_directory\<close>, which this version defines and
  never calls: \<^verbatim>\<open>tree_lines\<close> gets the header and the closing rule only.
\<close>

definition generate_directory_tree :: "env \<Rightarrow> entry \<Rightarrow> int option \<Rightarrow> py_error + string" where
  "generate_directory_tree env start_path max_depth =
     (if \<not> exists start_path then Inl FileNotFoundError
      else
        (let tree_lines = [];
             tree_lines = replicate 60 CHR ''='' # tree_lines;
             tree_lines = (''Generated: '' @ now_strftime env) # tree_lines;
             tree_lines = (''Directory Tree for: '' @ str start_path) # tree_lines;
             tree_lines = tree_lines @ [replicate 60 CHR ''='']
         in Inr (join_lines tree_lines)))"

subsection \<open>The ASCII tree: \<^verbatim>\<open>generate_ascii_tree\<close>\<close>

record tree_state =
  tree_lines :: "string list"
  total_dirs :: int
  total_files :: int
  total_size :: int

text \<open>The counts shown after the name of a directory, or \<^verbatim>\<open>(?)\<close> when it cannot be listed.\<close>

definition ascii_dir_label :: "bool \<Rightarrow> entry \<Rightarrow> string" where
  "ascii_dir_label show_hidden item =
     (case iterdir item of
        Inr listing \<Rightarrow>
          (let dir_items = (if \<not> show_hidden
                            then filter (\<lambda>di. \<not> startswith_dot (name di)) listing else listing);
               dir_files = int (length (filter is_file dir_items));
               dir_subdirs = int (length (filter is_dir dir_items))
           in name item @ ''/ ('' @ str_int dir_files @ ''f, '' @ str_int dir_subdirs @ ''d)'')
      | Inl e \<Rightarrow> name item @ ''/ (?)'')"

definition ascii_size_str :: "env \<Rightarrow> int \<Rightarrow> string" where
  "ascii_size_str env sz =
     (if sz = 0 then ''empty''
      else if sz < 1024 then str_int sz @ '' B''
      else if sz < 1024 * 1024 then fmt_1f env sz 1024 @ '' KB''
      else if sz < 1024 * 1024 * 1024 then fmt_1f env sz (1024 * 1024) @ '' MB''
      else fmt_1f env sz (1024 * 1024 * 1024) @ '' GB'')"

function build_tree ::
  "env \<Rightarrow> bool \<Rightarrow> int option \<Rightarrow> entry \<Rightarrow> string \<Rightarrow> bool \<Rightarrow> nat \<Rightarrow> tree_state
     \<Rightarrow> tree_state \<times> py_error option" where
  "build_tree env show_hidden max_depth current_path prefix is_last depth st =
    (if max_depth \<noteq> None \<and> int depth > the max_depth then (st, None)
     else except_PermissionError
       (\<lambda>st. st\<lparr>tree_lines := tree_lines st @ [prefix @ corner @ ''[Permission Denied]'']\<rparr>)
       (case iterdir current_path of
          Inl e \<Rightarrow> (st, Some e)
        | Inr listing \<Rightarrow>
            (let items = (if \<not> show_hidden
                          then filter (\<lambda>item. \<not> startswith_dot (name item)) listing else listing);
                 items = sort_items items
             in for_each (\<lambda>(i, item) st.
                  let is_last_item = (int i = int (length items) - 1);
                      connector = (if i = 0 then (if is_last then corner else tee)
                                   else (if is_last then blank else bar));
                      line = prefix @ connector
                  in if is_dir item then
                       (let st = st\<lparr>total_dirs := total_dirs st + 1\<rparr>;
                            line = line @ ''[D] '';
                            line = line @ ascii_dir_label show_hidden item;
                            st = st\<lparr>tree_lines := tree_lines st @ [line]\<rparr>;
                            next_prefix = prefix @ (if is_last then blank else bar)
                        in build_tree env show_hidden max_depth item next_prefix is_last_item
                             (depth + 1) st)
                     else
                       (let st = st\<lparr>total_files := total_files st + 1\<rparr>;
                            line = line @ ''[F] ''
                        in case stat item of
                             Inr sr \<Rightarrow>
                               (let sz = st_size sr;
                                    st = st\<lparr>total_size := total_size st + sz\<rparr>;
                                    line = line @ name item @ '' ('' @ ascii_size_str env sz @ '')''
                                in (st\<lparr>tree_lines := tree_lines st @ [line]\<rparr>, None))
                           | Inl e \<Rightarrow>
                               (let line = line @ name item @ '' (access denied)''
                                in (st\<lparr>tree_lines := tree_lines st @ [line]\<rparr>, None))))
                (enumerate 0 items) st)))"
  by pat_completeness auto
termination
  by (relation "measure (\<lambda>(env, sh, m, p, pre, l, d, st). size p)")
     (auto dest!: enumerate_member simp: iterdir_smaller split: if_splits)


text \<open>
  \<^verbatim>\<open>generate_ascii_tree\<close>: the root is tested, the header is put in front, the tree
  is built from the root with the defaults \<^verbatim>\<open>prefix=""\<close>, \<^verbatim>\<open>is_last=True\<close>,
  \<^verbatim>\<open>depth=0\<close>, and the summary follows. \<open>ascii_walk\<close> is the state after the call
  \<^verbatim>\<open>build_tree(start_path)\<close>.
\<close>

definition ascii_total_size_str :: "env \<Rightarrow> int \<Rightarrow> string" where
  "ascii_total_size_str env tot =
     (if tot = 0 then ''0 B''
      else if tot < 1024 then str_int tot @ '' B''
      else if tot < 1024 * 1024 then fmt_1f env tot 1024 @ '' KB''
      else if tot < 1024 * 1024 * 1024 then fmt_1f env tot (1024 * 1024) @ '' MB''
      else fmt_1f env tot (1024 * 1024 * 1024) @ '' GB'')"

definition ascii_walk ::
  "env \<Rightarrow> entry \<Rightarrow> bool \<Rightarrow> int option \<Rightarrow> tree_state \<times> py_error option" where
  "ascii_walk env start_path show_hidden max_depth =
     (let tree_lines = [];
          tree_lines = replicate 60 CHR ''='' # tree_lines;
          tree_lines = (''Generated: '' @ now_strftime env) # tree_lines;
          tree_lines = (''ASCII Tree for: '' @ str start_path) # tree_lines
      in build_tree env show_hidden max_depth start_path [] True 0
           \<lparr>tree_lines = tree_lines, total_dirs = 0, total_files = 0, total_size = 0\<rparr>)"

record tree_output =
  tree_str :: string
  directories :: int
  files :: int
  bytes :: int

definition generate_ascii_tree ::
  "env \<Rightarrow> entry \<Rightarrow> bool \<Rightarrow> int option \<Rightarrow> py_error + tree_output" where
  "generate_ascii_tree env start_path show_hidden max_depth =
     (if \<not> exists start_path then Inl FileNotFoundError
      else case ascii_walk env start_path show_hidden max_depth of
        (st, Some e) \<Rightarrow> Inl e
      | (st, None) \<Rightarrow>
          (let total_size_str = ascii_total_size_str env (total_size st);
               ls = tree_lines st @
                 [[], replicate 60 CHR ''='', ''SUMMARY'', replicate 60 CHR ''='',
                  ''Total directories: '' @ str_int (total_dirs st),
                  ''Total files: '' @ str_int (total_files st),
                  ''Total size: '' @ total_size_str];
               ls = (if max_depth \<noteq> None
                     then ls @ [''Max depth: '' @ str_int (the max_depth)] else ls);
               ls = ls @ [''Include hidden: '' @ (if show_hidden then ''Yes'' else ''No'')];
               ls = ls @ [replicate 60 CHR ''='']
           in Inr \<lparr>tree_str = join_lines ls, directories = total_dirs st,
                    files = total_files st, bytes = total_size st\<rparr>))"

subsection \<open>The detailed tree: \<^verbatim>\<open>generate_detailed_tree\<close>\<close>

definition detailed_count_info :: "bool \<Rightarrow> entry \<Rightarrow> string" where
  "detailed_count_info show_hidden item =
     (case iterdir item of
        Inr listing \<Rightarrow>
          (let sub_items = (if \<not> show_hidden
                            then filter (\<lambda>si. \<not> startswith_dot (name si)) listing else listing);
               file_count_in_dir = int (length (filter is_file sub_items));
               dir_count_in_dir = int (length (filter is_dir sub_items))
           in '' ('' @ str_int file_count_in_dir @ '' files, '' @ str_int dir_count_in_dir @ '' dirs)'')
      | Inl e \<Rightarrow> '' [?]'')"

definition detailed_size_str :: "env \<Rightarrow> int \<Rightarrow> string" where
  "detailed_size_str env sz =
     (if sz > 1024 * 1024 * 1024 then '' ('' @ fmt_2f env sz (1024 * 1024 * 1024) @ '' GB)''
      else if sz > 1024 * 1024 then '' ('' @ fmt_2f env sz (1024 * 1024) @ '' MB)''
      else if sz > 1024 then '' ('' @ fmt_2f env sz 1024 @ '' KB)''
      else '' ('' @ str_int sz @ '' bytes)'')"

text \<open>
  \<^verbatim>\<open>process_directory\<close>; the state is the same four variables, named
  \<^verbatim>\<open>tree_lines\<close>, \<^verbatim>\<open>dir_count\<close>, \<^verbatim>\<open>file_count\<close> and \<^verbatim>\<open>total_size\<close> there.
\<close>

function process_directory ::
  "env \<Rightarrow> bool \<Rightarrow> int option \<Rightarrow> entry \<Rightarrow> string \<Rightarrow> bool \<Rightarrow> nat \<Rightarrow> tree_state
     \<Rightarrow> tree_state \<times> py_error option" where
  "process_directory env show_hidden max_depth current_path prefix is_last current_depth st =
    (if max_depth \<noteq> None \<and> int current_depth > the max_depth then (st, None)
     else except_PermissionError
       (\<lambda>st. st\<lparr>tree_lines := tree_lines st @
                   [prefix @ corner @ lock_emoji @ '' [Permission Denied]'']\<rparr>)
       (case iterdir current_path of
          Inl e \<Rightarrow> (st, Some e)
        | Inr listing \<Rightarrow>
            (let items = (if \<not> show_hidden
                          then filter (\<lambda>item. \<not> startswith_dot (name item)) listing else listing);
                 items = sort_items items
             in for_each (\<lambda>(i, item) st.
                  let is_last_item = (int i = int (length items) - 1);
                      connector = (if i = 0 then (if is_last then corner else tee)
                                   else (if is_last then blank else bar))
                  in if is_dir item then
                       (let st = st\<lparr>total_dirs := total_dirs st + 1\<rparr>;
                            marker = folder_emoji @ '' '';
                            count_info = detailed_count_info show_hidden item;
                            st = st\<lparr>tree_lines := tree_lines st @
                                   [prefix @ connector @ marker @ name item @ count_info]\<rparr>;
                            next_prefix = prefix @ (if is_last then blank else bar)
                        in process_directory env show_hidden max_depth item next_prefix
                             is_last_item (current_depth + 1) st)
                     else
                       (let st = st\<lparr>total_files := total_files st + 1\<rparr>;
                            marker = page_emoji @ '' ''
                        in case stat item of
                             Inr sr \<Rightarrow>
                               (let sz = st_size sr;
                                    st = st\<lparr>total_size := total_size st + sz\<rparr>;
                                    size_str = detailed_size_str env sz
                                in (st\<lparr>tree_lines := tree_lines st @
                                       [prefix @ connector @ marker @ name item @ size_str]\<rparr>, None))
                           | Inl e \<Rightarrow>
                               (let size_str = []
                                in (st\<lparr>tree_lines := tree_lines st @
                                       [prefix @ connector @ marker @ name item @ size_str]\<rparr>, None))))
                (enumerate 0 items) st)))"
  by pat_completeness auto
termination
  by (relation "measure (\<lambda>(env, sh, m, p, pre, l, d, st). size p)")
     (auto dest!: enumerate_member simp: iterdir_smaller split: if_splits)

definition detailed_total_size_str :: "env \<Rightarrow> int \<Rightarrow> string" where
  "detailed_total_size_str env tot =
     (if tot > 1024 * 1024 * 1024 then fmt_2f env tot (1024 * 1024 * 1024) @ '' GB''
      else if tot > 1024 * 1024 then fmt_2f env tot (1024 * 1024) @ '' MB''
      else if tot > 1024 then fmt_2f env tot 1024 @ '' KB''
      else str_int tot @ '' bytes'')"

text \<open>\<^verbatim>\<open>generate_detailed_tree\<close> does not test the root.\<close>

definition detailed_walk ::
  "env \<Rightarrow> entry \<Rightarrow> bool \<Rightarrow> int option \<Rightarrow> tree_state \<times> py_error option" where
  "detailed_walk env start_path show_hidden max_depth =
     (let tree_lines = [];
          tree_lines = tree_lines @ [open_folder_emoji @ '' '' @ str start_path];
          tree_lines = tree_lines @ [replicate 60 CHR ''='']
      in process_directory env show_hidden max_depth start_path [] True 0
           \<lparr>tree_lines = tree_lines, total_dirs = 0, total_files = 0, total_size = 0\<rparr>)"

definition generate_detailed_tree ::
  "env \<Rightarrow> entry \<Rightarrow> bool \<Rightarrow> int option \<Rightarrow> py_error + tree_output" where
  "generate_detailed_tree env start_path show_hidden max_depth =
     (case detailed_walk env start_path show_hidden max_depth of
        (st, Some e) \<Rightarrow> Inl e
      | (st, None) \<Rightarrow>
          (let total_size_str = detailed_total_size_str env (total_size st);
               ls = tree_lines st @
                 [CHR 0x0A # replicate 60 CHR ''='',
                  [CHR 0xF0, CHR 0x9F, CHR 0x93, CHR 0x8A] @ '' SUMMARY'',
                  replicate 60 CHR ''='',
                  [CHR 0xE2, CHR 0x80, CHR 0xA2] @ '' Directories: '' @ str_int (total_dirs st),
                  [CHR 0xE2, CHR 0x80, CHR 0xA2] @ '' Files: '' @ str_int (total_files st),
                  [CHR 0xE2, CHR 0x80, CHR 0xA2] @ '' Total Size: '' @ total_size_str,
                  [CHR 0xE2, CHR 0x80, CHR 0xA2] @ '' Generated: '' @ now_strftime env,
                  [CHR 0xE2, CHR 0x80, CHR 0xA2] @ '' Path: '' @ str start_path];
               ls = (if max_depth \<noteq> None
                     then ls @ [[CHR 0xE2, CHR 0x80, CHR 0xA2] @ '' Max Depth: '' @ str_int (the max_depth)]
                     else ls)
           in Inr \<lparr>tree_str = join_lines ls, directories = total_dirs st,
                    files = total_files st, bytes = total_size st\<rparr>))"


section \<open>The rich tree\<close>

text \<open>
  A \<^verbatim>\<open>rich.tree.Tree\<close> is a label (markup text) with the nodes added under it;
  \<^verbatim>\<open>parent_node.add(label)\<close> appends a node and returns it. The recursive call
  fills the node it was given, which is already part of its parent: when the call
  raises, the parent keeps what had been added.
\<close>

datatype rich_tree = Tree string "rich_tree list"

fun tree_add :: "rich_tree \<Rightarrow> rich_tree \<Rightarrow> rich_tree" where
  "tree_add (Tree label nodes) node = Tree label (nodes @ [node])"

definition rich_dir_label :: "entry \<Rightarrow> string" where
  "rich_dir_label item =
     (let dir_label = ''[bold cyan]'' @ name item @ ''[/bold cyan]''
      in case iterdir item of
           Inr dir_items \<Rightarrow>
             (let dir_files = int (length (filter is_file dir_items));
                  dir_dirs = int (length (filter is_dir dir_items));
                  count_label = '' [dim]('' @ str_int dir_files @ ''f, '' @ str_int dir_dirs
                                  @ ''d)[/dim]''
              in dir_label @ count_label)
         | Inl e \<Rightarrow> dir_label @ '' [red][?][/red]'')"

definition rich_size_str :: "env \<Rightarrow> entry \<Rightarrow> string" where
  "rich_size_str env item =
     (case stat item of
        Inr sr \<Rightarrow>
          (let sz = st_size sr
           in if sz = 0 then ''[dim](empty)[/dim]''
              else if sz < 1024 then ''[dim]('' @ str_int sz @ '' B)[/dim]''
              else if sz < 1024 * 1024 then ''[dim]('' @ fmt_1f env sz 1024 @ '' KB)[/dim]''
              else if sz < 1024 * 1024 * 1024
                then ''[dim]('' @ fmt_1f env sz (1024 * 1024) @ '' MB)[/dim]''
              else ''[dim]('' @ fmt_1f env sz (1024 * 1024 * 1024) @ '' GB)[/dim]'')
      | Inl e \<Rightarrow> ''[red](access denied)[/red]'')"

text \<open>\<^verbatim>\<open>build_tree\<close> of \<^verbatim>\<open>create_rich_directory_tree\<close> in \<^verbatim>\<open>directory_tree_generator.py\<close>.\<close>

function rich_build_tree ::
  "env \<Rightarrow> int option \<Rightarrow> entry \<Rightarrow> rich_tree \<Rightarrow> nat \<Rightarrow> rich_tree \<times> py_error option" where
  "rich_build_tree env max_depth current_path parent_node current_depth =
    (if max_depth \<noteq> None \<and> int current_depth \<ge> the max_depth
     then (tree_add parent_node (Tree ''[dim italic]... (depth limited)[/dim italic]'' []), None)
     else except_PermissionError
       (\<lambda>parent_node. tree_add parent_node (Tree ''[red][Permission Denied][/red]'' []))
       (case iterdir current_path of
          Inl e \<Rightarrow> (parent_node, Some e)
        | Inr listing \<Rightarrow>
            for_each (\<lambda>item parent_node.
                if is_dir item then
                  (case rich_build_tree env max_depth item (Tree (rich_dir_label item) [])
                          (current_depth + 1) of
                     (dir_node, raised) \<Rightarrow> (tree_add parent_node dir_node, raised))
                else
                  (let file_label = ''[green]'' @ name item @ ''[/green] '' @ rich_size_str env item
                   in (tree_add parent_node (Tree file_label []), None)))
              (sort_items listing) parent_node))"
  by pat_completeness auto
termination
  by (relation "measure (\<lambda>(env, m, p, t, d). size p)") (auto simp: iterdir_smaller)

text \<open>
  \<^verbatim>\<open>create_rich_directory_tree\<close> with the \<^verbatim>\<open>rich\<close> library present: the tree that
  is printed and saved. The root is not tested.
\<close>

definition create_rich_directory_tree :: "env \<Rightarrow> entry \<Rightarrow> int option \<Rightarrow> py_error + rich_tree" where
  "create_rich_directory_tree env start_path max_depth =
     (let tree = Tree (''[bold bright_blue]'' @ name start_path @ ''[/bold bright_blue]'') []
      in case rich_build_tree env max_depth start_path tree 0 of
           (tree, Some e) \<Rightarrow> Inl e
         | (tree, None) \<Rightarrow> Inr tree)"

text \<open>\<^verbatim>\<open>f"{size:,}"\<close>: the decimal digits in groups of three.\<close>

function fmt_thousands :: "int \<Rightarrow> string" where
  "fmt_thousands n =
     (if n < 1000 then str_int n
      else fmt_thousands (n div 1000) @ '','' @
           [char_of (48 + n mod 1000 div 100), char_of (48 + n mod 100 div 10),
            char_of (48 + n mod 10)])"
  by pat_completeness auto
termination
  by (relation "measure nat") auto

declare fmt_thousands.simps [simp del]

text \<open>
  \<^verbatim>\<open>build_tree\<close> of \<^verbatim>\<open>method2/directory_tree.py\<close>: the \<^verbatim>\<open>stat\<close> of a file is not
  guarded, so its exception leaves the loop; the handler of the directory takes a
  \<^verbatim>\<open>PermissionError\<close>, any other exception goes up.
\<close>

function method2_build_tree ::
  "int option \<Rightarrow> entry \<Rightarrow> rich_tree \<Rightarrow> nat \<Rightarrow> rich_tree \<times> py_error option" where
  "method2_build_tree max_depth current_path parent_node current_depth =
    (if max_depth \<noteq> None \<and> int current_depth \<ge> the max_depth then (parent_node, None)
     else except_PermissionError
       (\<lambda>parent_node. tree_add parent_node (Tree ''[red][Permission Denied][/red]'' []))
       (case iterdir current_path of
          Inl e \<Rightarrow> (parent_node, Some e)
        | Inr listing \<Rightarrow>
            for_each (\<lambda>item parent_node.
                if is_dir item then
                  (case method2_build_tree max_depth item
                          (Tree (''[bold cyan]'' @ name item @ ''[/bold cyan]'') [])
                          (current_depth + 1) of
                     (dir_node, raised) \<Rightarrow> (tree_add parent_node dir_node, raised))
                else
                  (case stat item of
                     Inl e \<Rightarrow> (parent_node, Some e)
                   | Inr sr \<Rightarrow>
                       (let sz = st_size sr;
                            size_str = (if sz > 0 then '' ('' @ fmt_thousands sz @ '' bytes)''
                                        else '' (empty)'')
                        in (tree_add parent_node
                              (Tree (''[green]'' @ name item @ ''[/green][dim]'' @ size_str
                                     @ ''[/dim]'') []), None))))
              (sort_items listing) parent_node))"
  by pat_completeness auto
termination
  by (relation "measure (\<lambda>(m, p, t, d). size p)") (auto simp: iterdir_smaller)

definition method2_create_rich_directory_tree :: "entry \<Rightarrow> int option \<Rightarrow> py_error + rich_tree" where
  "method2_create_rich_directory_tree start_path max_depth =
     (let tree = Tree (''[bold blue]'' @ name start_path @ ''[/bold blue]'') []
      in case method2_build_tree max_depth start_path tree 0 of
           (tree, Some e) \<Rightarrow> Inl e
         | (tree, None) \<Rightarrow> Inr tree)"

section \<open>The command line: one walk per output format\<close>

text \<open>
  \<^verbatim>\<open>main()\<close> of \<^verbatim>\<open>directory_tree_generator.py\<close> passes \<^verbatim>\<open>args.path\<close>,
  \<^verbatim>\<open>args.depth\<close> and \<^verbatim>\<open>args.all\<close> (include hidden entries) to the function of the
  chosen format. Only the ASCII and the detailed tree take \<^verbatim>\<open>args.all\<close>. An
  exception ends the program with an error message.
\<close>

datatype output_format = Basic | Ascii | Rich | Detailed | Json | Xml

datatype tree_document =
    BasicTree string
  | AsciiTree tree_output
  | RichTree rich_tree
  | DetailedTree tree_output
  | JsonTree json_document
  | XmlTree xml_element

definition main_format ::
  "env \<Rightarrow> output_format \<Rightarrow> entry \<Rightarrow> int option \<Rightarrow> bool \<Rightarrow> py_error + tree_document" where
  "main_format env fmt path depth all =
     (case fmt of
        Basic \<Rightarrow> map_sum id BasicTree (generate_directory_tree env path depth)
      | Ascii \<Rightarrow> map_sum id AsciiTree (generate_ascii_tree env path all depth)
      | Rich \<Rightarrow> map_sum id RichTree (create_rich_directory_tree env path depth)
      | Detailed \<Rightarrow> map_sum id DetailedTree (generate_detailed_tree env path all depth)
      | Json \<Rightarrow> Inr (JsonTree (save_tree_json env path depth))
      | Xml \<Rightarrow> Inr (XmlTree (save_tree_xml env path depth)))"

section \<open>A clock and number formats for the examples\<close>

text \<open>
  The examples below need an environment; their files are smaller than 1024 bytes, so
  the floating-point formats are never asked for.
\<close>

definition example_env :: env where
  "example_env =
     \<lparr>now_strftime = ''2024-01-01 00:00:00'', now_isoformat = ''2024-01-01T00:00:00'',
      fmt_1f = (\<lambda>a b. ''?''), fmt_2f = (\<lambda>a b. ''?''), str_float = (\<lambda>x. ''?'')\<rparr>"

section \<open>The drawing rule of the specification\<close>

text \<open>
  The specification draws a node from the flags of its ancestors below the root,
  outermost first (\<open>True\<close>: that ancestor was the last of its siblings), its own
  flag and its name: the prefix is four spaces for an ancestor that was last and a
  vertical bar with three spaces for one that was not, the connector is the corner
  for a last sibling and the tee otherwise. \<open>spec_render\<close> draws the entries under a
  directory by that rule, in the order of the basic walker, with the line
  \<^verbatim>\<open>[Permission Denied]\<close> for a directory that cannot be listed.
\<close>

definition spec_prefix :: "bool list \<Rightarrow> string" where
  "spec_prefix ancestors = concat (map (\<lambda>was_last. if was_last then blank else bar) ancestors)"

definition spec_line :: "bool list \<Rightarrow> bool \<Rightarrow> string \<Rightarrow> string" where
  "spec_line ancestors is_last nm =
     spec_prefix ancestors @ (if is_last then corner else tee) @ nm"

function spec_render :: "int option \<Rightarrow> bool list \<Rightarrow> nat \<Rightarrow> entry \<Rightarrow> string list" where
  "spec_render max_depth ancestors depth directory =
     (if max_depth \<noteq> None \<and> int depth > the max_depth then []
      else case iterdir directory of
        Inl e \<Rightarrow> [spec_prefix ancestors @ corner @ ''[Permission Denied]'']
      | Inr listing \<Rightarrow>
          (let items = sorted_paths listing
           in concat (map (\<lambda>(i, item).
                  let is_last = (i + 1 = length items)
                  in spec_line ancestors is_last (name item) #
                     (if is_dir item
                      then spec_render max_depth (ancestors @ [is_last]) (depth + 1) item
                      else []))
                (enumerate 0 items))))"
  by pat_completeness auto
termination
  by (relation "measure (\<lambda>(m, a, d, p). size p)")
     (auto dest!: enumerate_member simp: iterdir_smaller)

declare spec_render.simps [simp del]

section \<open>Two small file systems for the examples\<close>

text \<open>
  The scenario of the specification: a root that holds \<^verbatim>\<open>a.txt\<close> (10 bytes) and the
  directory \<^verbatim>\<open>B\<close> with \<^verbatim>\<open>c.txt\<close> (5 bytes).
\<close>

definition example_root :: entry where
  "example_root =
     Dir ''root'' ''/root'' \<lparr>st_size = 4096, st_mtime = 0\<rparr>
       [File ''a.txt'' ''/root/a.txt'' (Inr \<lparr>st_size = 10, st_mtime = 0\<rparr>),
        Dir ''B'' ''/root/B'' \<lparr>st_size = 4096, st_mtime = 0\<rparr>
          [File ''c.txt'' ''/root/B/c.txt'' (Inr \<lparr>st_size = 5, st_mtime = 0\<rparr>)]]"

text \<open>A directory with three files.\<close>

definition example_three_files :: entry where
  "example_three_files =
     Dir ''r'' ''/r'' \<lparr>st_size = 4096, st_mtime = 0\<rparr>
       [File ''a.txt'' ''/r/a.txt'' (Inr \<lparr>st_size = 1, st_mtime = 0\<rparr>),
        File ''b.txt'' ''/r/b.txt'' (Inr \<lparr>st_size = 2, st_mtime = 0\<rparr>),
        File ''c.txt'' ''/r/c.txt'' (Inr \<lparr>st_size = 3, st_mtime = 0\<rparr>)]"

section \<open>The sibling order of the specification\<close>


fun dict_is_dir :: "tree_dict \<Rightarrow> bool" where
  "dict_is_dir (DirectoryD n p sz m cs) = True"
| "dict_is_dir (FileD n p sz m) = False"
| "dict_is_dir (FileErrorD n) = False"
| "dict_is_dir ErrorD = False"

fun dict_name :: "tree_dict \<Rightarrow> string" where
  "dict_name (DirectoryD n p sz m cs) = n"
| "dict_name (FileD n p sz m) = n"
| "dict_name (FileErrorD n) = n"
| "dict_name ErrorD = []"


text \<open>
  What \<^verbatim>\<open>directory_to_dict\<close> appends for one entry of a listing, and the value it
  gives to the key \<^verbatim>\<open>'modified'\<close>.
\<close>

definition child_dict :: "int option \<Rightarrow> nat \<Rightarrow> entry \<Rightarrow> tree_dict" where
  "child_dict max_depth current_depth item =
     (if is_dir item then directory_to_dict item max_depth (current_depth + 1)
      else case stat item of
             Inr st \<Rightarrow> FileD (name item) (str item) (st_size st) (st_mtime st)
           | Inl e \<Rightarrow> FileErrorD (name item))"

definition modified_of :: "entry \<Rightarrow> real" where
  "modified_of path = (if exists path then (case stat path of Inr s \<Rightarrow> st_mtime s | Inl e \<Rightarrow> 0) else 0)"


section \<open>The depth of a file system\<close>


section \<open>What a counted walk visits\<close>

text \<open>
  The entries for which the ASCII and the detailed tree draw a line, in the order of
  the lines: the entries of a directory that can be listed and is not deeper than
  the limit, hidden ones left out unless asked for, sorted, each directory followed
  by what is visited under it. \<open>size_or_zero\<close> is the size of an entry whose
  \<^verbatim>\<open>stat\<close> succeeds and 0 for one whose \<^verbatim>\<open>stat\<close> raises.
\<close>

function visited :: "bool \<Rightarrow> int option \<Rightarrow> nat \<Rightarrow> entry \<Rightarrow> entry list" where
  "visited show_hidden max_depth depth directory =
     (if max_depth \<noteq> None \<and> int depth > the max_depth then []
      else case iterdir directory of
        Inl e \<Rightarrow> []
      | Inr listing \<Rightarrow>
          concat (map (\<lambda>item. item #
                    (if is_dir item then visited show_hidden max_depth (depth + 1) item else []))
            (sort_items (if \<not> show_hidden
                         then filter (\<lambda>item. \<not> startswith_dot (name item)) listing
                         else listing))))"
  by pat_completeness auto
termination
  by (relation "measure (\<lambda>(sh, m, d, p). size p)")
     (auto simp: iterdir_smaller split: if_splits)

declare visited.simps [simp del]

definition size_or_zero :: "entry \<Rightarrow> int" where
  "size_or_zero item = (case stat item of Inr sr \<Rightarrow> st_size sr | Inl e \<Rightarrow> 0)"

definition visited_files :: "bool \<Rightarrow> int option \<Rightarrow> nat \<Rightarrow> entry \<Rightarrow> entry list" where
  "visited_files show_hidden max_depth depth directory =
     filter (\<lambda>item. \<not> is_dir item) (visited show_hidden max_depth depth directory)"

definition visited_dirs :: "bool \<Rightarrow> int option \<Rightarrow> nat \<Rightarrow> entry \<Rightarrow> entry list" where
  "visited_dirs show_hidden max_depth depth directory =
     filter is_dir (visited show_hidden max_depth depth directory)"

text \<open>The body of the loop of \<^verbatim>\<open>build_tree\<close> in \<^verbatim>\<open>generate_ascii_tree\<close>.\<close>

definition ascii_item ::
  "env \<Rightarrow> bool \<Rightarrow> int option \<Rightarrow> nat \<Rightarrow> string \<Rightarrow> bool \<Rightarrow> nat \<Rightarrow> nat \<times> entry \<Rightarrow> tree_state
     \<Rightarrow> tree_state \<times> py_error option" where
  "ascii_item env show_hidden max_depth n_items prefix is_last depth =
     (\<lambda>(i, item) st.
                  let is_last_item = (int i = int n_items - 1);
                      connector = (if i = 0 then (if is_last then corner else tee)
                                   else (if is_last then blank else bar));
                      line = prefix @ connector
                  in if is_dir item then
                       (let st = st\<lparr>total_dirs := total_dirs st + 1\<rparr>;
                            line = line @ ''[D] '';
                            line = line @ ascii_dir_label show_hidden item;
                            st = st\<lparr>tree_lines := tree_lines st @ [line]\<rparr>;
                            next_prefix = prefix @ (if is_last then blank else bar)
                        in build_tree env show_hidden max_depth item next_prefix is_last_item
                             (depth + 1) st)
                     else
                       (let st = st\<lparr>total_files := total_files st + 1\<rparr>;
                            line = line @ ''[F] ''
                        in case stat item of
                             Inr sr \<Rightarrow>
                               (let sz = st_size sr;
                                    st = st\<lparr>total_size := total_size st + sz\<rparr>;
                                    line = line @ name item @ '' ('' @ ascii_size_str env sz @ '')''
                                in (st\<lparr>tree_lines := tree_lines st @ [line]\<rparr>, None))
                           | Inl e \<Rightarrow>
                               (let line = line @ name item @ '' (access denied)''
                                in (st\<lparr>tree_lines := tree_lines st @ [line]\<rparr>, None))))"

section \<open>Sizes in a dictionary\<close>



text \<open>The body of the loop of \<^verbatim>\<open>process_directory\<close> in \<^verbatim>\<open>generate_detailed_tree\<close>.\<close>

definition detailed_item ::
  "env \<Rightarrow> bool \<Rightarrow> int option \<Rightarrow> nat \<Rightarrow> string \<Rightarrow> bool \<Rightarrow> nat \<Rightarrow> nat \<times> entry \<Rightarrow> tree_state
     \<Rightarrow> tree_state \<times> py_error option" where
  "detailed_item env show_hidden max_depth n_items prefix is_last current_depth =
     (\<lambda>(i, item) st.
                  let is_last_item = (int i = int n_items - 1);
                      connector = (if i = 0 then (if is_last then corner else tee)
                                   else (if is_last then blank else bar))
                  in if is_dir item then
                       (let st = st\<lparr>total_dirs := total_dirs st + 1\<rparr>;
                            marker = folder_emoji @ '' '';
                            count_info = detailed_count_info show_hidden item;
                            st = st\<lparr>tree_lines := tree_lines st @
                                   [prefix @ connector @ marker @ name item @ count_info]\<rparr>;
                            next_prefix = prefix @ (if is_last then blank else bar)
                        in process_directory env show_hidden max_depth item next_prefix
                             is_last_item (current_depth + 1) st)
                     else
                       (let st = st\<lparr>total_files := total_files st + 1\<rparr>;
                            marker = page_emoji @ '' ''
                        in case stat item of
                             Inr sr \<Rightarrow>
                               (let sz = st_size sr;
                                    st = st\<lparr>total_size := total_size st + sz\<rparr>;
                                    size_str = detailed_size_str env sz
                                in (st\<lparr>tree_lines := tree_lines st @
                                       [prefix @ connector @ marker @ name item @ size_str]\<rparr>, None))
                           | Inl e \<Rightarrow>
                               (let size_str = []
                                in (st\<lparr>tree_lines := tree_lines st @
                                       [prefix @ connector @ marker @ name item @ size_str]\<rparr>, None))))"

section \<open>A file system without its hidden entries\<close>

text \<open>
  The same file system with every entry whose name begins with a dot taken out of
  every listing, together with what is below it; and an example with a hidden file
  and a hidden directory.
\<close>

fun strip_hidden :: "entry \<Rightarrow> entry" where
  "strip_hidden (Dir n p s es) =
     Dir n p s (map strip_hidden (filter (\<lambda>e. \<not> startswith_dot (name e)) es))"
| "strip_hidden (DirErr n p s e) = DirErr n p s e"
| "strip_hidden (File n p s) = File n p s"
| "strip_hidden (Missing n p) = Missing n p"

definition example_hidden :: entry where
  "example_hidden =
     Dir ''h'' ''/h'' \<lparr>st_size = 4096, st_mtime = 0\<rparr>
       [File ''.env'' ''/h/.env'' (Inr \<lparr>st_size = 3, st_mtime = 0\<rparr>),
        Dir ''.git'' ''/h/.git'' \<lparr>st_size = 4096, st_mtime = 0\<rparr>
          [File ''config'' ''/h/.git/config'' (Inr \<lparr>st_size = 9, st_mtime = 0\<rparr>)],
        File ''a.txt'' ''/h/a.txt'' (Inr \<lparr>st_size = 10, st_mtime = 0\<rparr>)]"

section \<open>Directories that can be listed or are denied\<close>

text \<open>
  \<^verbatim>\<open>denials_only\<close>: every \<^verbatim>\<open>iterdir\<close> that a walk from the entry can reach either
  succeeds or raises \<^verbatim>\<open>PermissionError\<close>, the one exception the walkers catch. A
  regular file lists with \<^verbatim>\<open>NotADirectoryError\<close>. \<^verbatim>\<open>readable_files\<close>: the \<^verbatim>\<open>stat\<close>
  of every file below the entry succeeds.
\<close>

fun denials_only :: "entry \<Rightarrow> bool" where
  "denials_only (Dir n p s es) = list_all denials_only (filter is_dir es)"
| "denials_only (DirErr n p s e) = (e = PermissionError)"
| "denials_only (File n p (Inl e)) = (e = PermissionError)"
| "denials_only (File n p (Inr s)) = False"
| "denials_only (Missing n p) = False"

fun readable_files :: "entry \<Rightarrow> bool" where
  "readable_files (Dir n p s es) = list_all readable_files es"
| "readable_files (DirErr n p s e) = True"
| "readable_files (File n p (Inl e)) = False"
| "readable_files (File n p (Inr s)) = True"
| "readable_files (Missing n p) = False"

text \<open>
  A directory whose listing fails with an input/output error, a directory that is
  denied, a symbolic link whose target is gone, and a regular file given as root.
\<close>

definition example_io_error :: entry where
  "example_io_error =
     Dir ''top'' ''/top'' \<lparr>st_size = 4096, st_mtime = 0\<rparr>
       [DirErr ''bad'' ''/top/bad'' \<lparr>st_size = 4096, st_mtime = 0\<rparr> OSError,
        File ''z.txt'' ''/top/z.txt'' (Inr \<lparr>st_size = 4, st_mtime = 0\<rparr>)]"

definition example_locked :: entry where
  "example_locked =
     Dir ''top'' ''/top'' \<lparr>st_size = 4096, st_mtime = 0\<rparr>
       [DirErr ''locked'' ''/top/locked'' \<lparr>st_size = 4096, st_mtime = 0\<rparr> PermissionError,
        File ''z.txt'' ''/top/z.txt'' (Inr \<lparr>st_size = 4, st_mtime = 0\<rparr>)]"

definition example_dangling :: entry where
  "example_dangling =
     Dir ''d'' ''/d'' \<lparr>st_size = 4096, st_mtime = 0\<rparr>
       [File ''a.lnk'' ''/d/a.lnk'' (Inl FileNotFoundError),
        File ''b.txt'' ''/d/b.txt'' (Inr \<lparr>st_size = 3, st_mtime = 0\<rparr>)]"

definition example_regular_file :: entry where
  "example_regular_file = File ''f.txt'' ''/f.txt'' (Inr \<lparr>st_size = 3, st_mtime = 0\<rparr>)"

section \<open>Exceptions and loops\<close>

lemma except_PermissionError_simps [simp]:
  "except_PermissionError h (s, None) = (s, None)"
  "except_PermissionError h (s, Some PermissionError) = (h s, None)"
  "e \<noteq> PermissionError \<Longrightarrow> except_PermissionError h (s, Some e) = (s, Some e)"
  by (simp_all add: except_PermissionError_def)

section \<open>The XML metadata\<close>

lemma element_get_sub_element [simp]:
  "element_get (sub_element el c) k = element_get el k"
  by (cases el) simp

lemma element_get_foldl_sub_element [simp]:
  "element_get (foldl (\<lambda>el c. sub_element el (f c)) el cs) k = element_get el k"
  by (induction cs arbitrary: el) simp_all

lemma element_get_element_set:
  "element_get (element_set k' v el) k = (if k = k' then Some v else element_get el k)"
  by (cases el) (simp add: update_conv')

lemma dict_to_xml_keeps_max_depth:
  "element_get (dict_to_xml env el d) ''max_depth'' = element_get el ''max_depth''"
  by (cases d) (simp_all add: element_get_element_set)

text \<open>
  Claim C10. In \<^verbatim>\<open>save_tree_xml\<close> the attribute \<^verbatim>\<open>max_depth\<close> of the root element
  is the string \<^verbatim>\<open>unlimited\<close> when \<^verbatim>\<open>max_depth\<close> is \<^verbatim>\<open>None\<close> and also when it is
  \<^verbatim>\<open>0\<close>: the truth-value test takes \<^verbatim>\<open>0\<close> for absent, so a walk limited to depth
  0 is reported as unlimited. Nothing that \<^verbatim>\<open>dict_to_xml\<close> sets afterwards
  overwrites the attribute.
\<close>

theorem save_tree_xml_max_depth_zero_unlimited:
  "element_get (save_tree_xml env start_path None) ''max_depth'' = Some ''unlimited'' \<and>
   element_get (save_tree_xml env start_path (Some 0)) ''max_depth'' = Some ''unlimited''"
  by (simp add: save_tree_xml_def truthy_def dict_to_xml_keeps_max_depth
        element_get_element_set)

section \<open>A root that does not exist\<close>

text \<open>
  Claim C3, as the code has it. When nothing is at the root path, the basic tree
  (both versions) and the ASCII tree test \<^verbatim>\<open>start_path.exists()\<close> first and raise
  \<^verbatim>\<open>FileNotFoundError\<close> with nothing walked and nothing returned. The detailed tree
  does not test the root: the listing of the root raises \<^verbatim>\<open>FileNotFoundError\<close>,
  which its handler for \<^verbatim>\<open>PermissionError\<close> lets through, unless a negative depth
  limit ends the walk before the listing. The same holds for the rich tree unless
  the depth limit is at most 0. The JSON and XML exports neither test the root nor
  raise: \<^verbatim>\<open>directory_to_dict\<close> returns a dictionary of type \<^verbatim>\<open>directory\<close> with size 0,
  \<^verbatim>\<open>modified\<close> 0 and the one child \<^verbatim>\<open>{'error': 'Permission denied'}\<close> (no child
  when the depth limit is at most 0).
\<close>

theorem missing_root_raises_except_in_export:
  "generate_directory_tree env (Missing n p) max_depth = Inl FileNotFoundError \<and>
   generate_directory_tree_method1 (Missing n p) max_depth = Inl FileNotFoundError \<and>
   generate_ascii_tree env (Missing n p) show_hidden max_depth = Inl FileNotFoundError \<and>
   (max_depth = None \<or> 0 \<le> the max_depth \<longrightarrow>
      generate_detailed_tree env (Missing n p) show_hidden max_depth = Inl FileNotFoundError) \<and>
   (max_depth = None \<or> 0 < the max_depth \<longrightarrow>
      create_rich_directory_tree env (Missing n p) max_depth = Inl FileNotFoundError) \<and>
   directory_to_dict (Missing n p) max_depth 0 =
     DirectoryD n p 0 0 (if max_depth \<noteq> None \<and> the max_depth \<le> 0 then [] else [ErrorD])"
  by (auto simp: generate_directory_tree_def generate_directory_tree_method1_def
        generate_ascii_tree_def generate_detailed_tree_def detailed_walk_def
        create_rich_directory_tree_def exists_def)

theorem missing_root_raises_except_in_export_witness:
  "generate_ascii_tree example_env (Missing ''gone'' ''/gone'') False (Some 2)
     = Inl FileNotFoundError \<and>
   generate_detailed_tree example_env (Missing ''gone'' ''/gone'') False (Some 2)
     = Inl FileNotFoundError \<and>
   create_rich_directory_tree example_env (Missing ''gone'' ''/gone'') (Some 2)
     = Inl FileNotFoundError \<and>
   directory_to_dict (Missing ''gone'' ''/gone'') (Some 2) 0
     = DirectoryD ''gone'' ''/gone'' 0 0 [ErrorD]"
  using missing_root_raises_except_in_export
          [of example_env "''gone''" "''/gone''" "Some 2" False]
  by simp

text \<open>
  The claim as it is written fails for the JSON format: asked for a root that does
  not exist, \<^verbatim>\<open>save_tree_json\<close> raises nothing and writes a document.
\<close>

theorem missing_root_json_counterexample:
  "main_format example_env Json (Missing ''gone'' ''/gone'') None False =
     Inr (JsonTree \<lparr>tree_dict = DirectoryD ''gone'' ''/gone'' 0 0 [ErrorD],
                    metadata_generated = ''2024-01-01T00:00:00'',
                    metadata_source_path = ''/gone'',
                    metadata_max_depth = None\<rparr>)"
  by (simp add: main_format_def save_tree_json_def example_env_def exists_def)

declare walk_directory.simps [simp del]

lemma entry_children_induct [case_names children]:
  assumes "\<And>p. (\<And>items x. iterdir p = Inr items \<Longrightarrow> x \<in> set items \<Longrightarrow> P x) \<Longrightarrow> P p"
  shows "P p"
proof (induction p rule: measure_induct_rule [where f = size])
  case (less p)
  show ?case
    by (rule assms) (rule less, erule (1) iterdir_smaller)
qed

lemma for_each_raised:
  "for_each f xs s = (s', Some e) \<Longrightarrow> \<exists>x \<in> set xs. \<exists>u. f x u = (s', Some e)"
proof (induction xs arbitrary: s)
  case Nil
  then show ?case by simp
next
  case (Cons x xs)
  then show ?case
    by (cases "f x s") (auto split: option.splits)
qed

lemma for_each_appends:
  assumes "for_each f xs s = (s', None)"
    and "\<And>x u u'. x \<in> set xs \<Longrightarrow> f x u = (u', None) \<Longrightarrow> u' = u @ g x"
  shows "s' = s @ concat (map g xs)"
  using assms
proof (induction xs arbitrary: s)
  case Nil
  then show ?case by simp
next
  case (Cons x xs)
  obtain s1 r where fx: "f x s = (s1, r)" by (cases "f x s")
  with Cons.prems(1) have r: "r = None" and rest: "for_each f xs s1 = (s', None)"
    by (auto split: option.splits)
  from Cons.prems(2) [of x s s1] fx r have "s1 = s @ g x" by simp
  moreover have "s' = s1 @ concat (map g xs)"
    by (rule Cons.IH [OF rest]) (rule Cons.prems(2), simp_all)
  ultimately show ?case by simp
qed

lemma except_no_PermissionError:
  "except_PermissionError h r \<noteq> (s, Some PermissionError)"
  by (auto simp: except_PermissionError_def split: prod.splits option.splits)

lemma except_PermissionError_None:
  "except_PermissionError h (s, r) = (s', None) \<Longrightarrow>
     (r = None \<and> s' = s) \<or> (r = Some PermissionError \<and> s' = h s)"
  by (auto simp: except_PermissionError_def split: option.splits if_splits)

lemma walk_directory_no_PermissionError:
  "walk_directory max_depth p prefix depth ls \<noteq> (ls', Some PermissionError)"
  by (subst walk_directory.simps) (simp add: except_no_PermissionError)

lemma spec_prefix_snoc:
  "spec_prefix (ancestors @ [l]) = spec_prefix ancestors @ (if l then blank else bar)"
  by (simp add: spec_prefix_def)

lemma walk_directory_deep:
  "max_depth \<noteq> None \<and> int depth > the max_depth \<Longrightarrow>
     walk_directory max_depth p prefix depth ls = (ls, None)"
  by (subst walk_directory.simps) simp

lemma walk_directory_Inl:
  "\<not> (max_depth \<noteq> None \<and> int depth > the max_depth) \<Longrightarrow> iterdir p = Inl e \<Longrightarrow>
     walk_directory max_depth p prefix depth ls =
       except_PermissionError (\<lambda>ls. ls @ [prefix @ corner @ ''[Permission Denied]''])
         (ls, Some e)"
  by (subst walk_directory.simps) (cases max_depth; simp)

lemma walk_directory_Inr:
  "\<not> (max_depth \<noteq> None \<and> int depth > the max_depth) \<Longrightarrow> iterdir p = Inr listing \<Longrightarrow>
     walk_directory max_depth p prefix depth ls =
       except_PermissionError (\<lambda>ls. ls @ [prefix @ corner @ ''[Permission Denied]''])
         (for_each (\<lambda>(i, item) tree_lines.
              let is_last = (int i = int (length (sorted_paths listing)) - 1);
                  connector = (if is_last then corner else tee);
                  tree_lines = tree_lines @ [prefix @ connector @ name item]
              in if is_dir item then
                   (let extension = (if is_last then blank else bar)
                    in walk_directory max_depth item (prefix @ extension) (depth + 1) tree_lines)
                 else (tree_lines, None))
            (enumerate 0 (sorted_paths listing)) ls)"
  by (subst walk_directory.simps) (cases max_depth; simp add: Let_def)

lemma spec_render_deep:
  "max_depth \<noteq> None \<and> int depth > the max_depth \<Longrightarrow>
     spec_render max_depth ancestors depth p = []"
  by (subst spec_render.simps) simp

lemma spec_render_Inl:
  "\<not> (max_depth \<noteq> None \<and> int depth > the max_depth) \<Longrightarrow> iterdir p = Inl e \<Longrightarrow>
     spec_render max_depth ancestors depth p =
       [spec_prefix ancestors @ corner @ ''[Permission Denied]'']"
  by (subst spec_render.simps) (cases max_depth; simp)

lemma spec_render_Inr:
  "\<not> (max_depth \<noteq> None \<and> int depth > the max_depth) \<Longrightarrow> iterdir p = Inr listing \<Longrightarrow>
     spec_render max_depth ancestors depth p =
       concat (map (\<lambda>(i, item).
                  let is_last = (i + 1 = length (sorted_paths listing))
                  in spec_line ancestors is_last (name item) #
                     (if is_dir item
                      then spec_render max_depth (ancestors @ [is_last]) (depth + 1) item
                      else []))
                (enumerate 0 (sorted_paths listing)))"
  by (subst spec_render.simps) (cases max_depth; simp add: Let_def)

lemma walk_directory_spec:
  "walk_directory max_depth p (spec_prefix ancestors) depth ls = (ls', None) \<Longrightarrow>
     ls' = ls @ spec_render max_depth ancestors depth p"
proof (induction p arbitrary: ancestors depth ls ls' rule: entry_children_induct)
  case (children p)
  show ?case
  proof (cases "max_depth \<noteq> None \<and> int depth > the max_depth")
    case True
    with children.prems show ?thesis
      by (simp add: walk_directory_deep spec_render_deep)
  next
    case deep: False
    show ?thesis
    proof (cases "iterdir p")
      case (Inl e)
      with children.prems show ?thesis
        unfolding walk_directory_Inl [OF deep Inl] spec_render_Inl [OF deep Inl]
        by (cases "e = PermissionError") simp_all
    next
      case (Inr listing)
      define items where "items = sorted_paths listing"
      define body where "body = (\<lambda>(i, item) tree_lines.
                  let is_last = (int i = int (length items) - 1);
                      connector = (if is_last then corner else tee);
                      tree_lines = tree_lines @ [spec_prefix ancestors @ connector @ name item]
                  in if is_dir item then
                       (let extension = (if is_last then blank else bar)
                        in walk_directory max_depth item (spec_prefix ancestors @ extension) (depth + 1) tree_lines)
                     else (tree_lines, None))"
      define g where "g = (\<lambda>(i, item).
                  let is_last = (i + 1 = length items)
                  in spec_line ancestors is_last (name item) #
                     (if is_dir item
                      then spec_render max_depth (ancestors @ [is_last]) (depth + 1) item
                      else []))"
      obtain s1 r where loop: "for_each body (enumerate 0 items) ls = (s1, r)"
        by (cases "for_each body (enumerate 0 items) ls")
      from children.prems loop
      have exc: "except_PermissionError (\<lambda>ls. ls @ [spec_prefix ancestors @ corner @ ''[Permission Denied]'']) (s1, r) = (ls', None)"
        unfolding walk_directory_Inr [OF deep Inr] items_def body_def by simp
      have "r \<noteq> Some PermissionError"
      proof
        assume "r = Some PermissionError"
        with loop obtain i item u where "body (i, item) u = (s1, Some PermissionError)"
          by (auto dest: for_each_raised)
        then show False
          by (simp add: body_def Let_def walk_directory_no_PermissionError split: if_splits)
      qed
      with exc have r: "r = None" and s1: "ls' = s1"
        by (auto dest: except_PermissionError_None)
      have step: "u' = u @ g x" if "x \<in> set (enumerate 0 items)" and "body x u = (u', None)" for x u u'
      proof -
        obtain i item where x: "x = (i, item)" by (cases x)
        with that(1) have mem: "item \<in> set listing" and i: "i < length items"
          by (auto simp: in_set_enumerate_eq items_def dest: nth_mem)
        have last: "(int i = int (length items) - 1) = (i + 1 = length items)"
          by auto
        show ?thesis
        proof (cases "is_dir item")
          case True
          from that(2) x True
          have "walk_directory max_depth item (spec_prefix (ancestors @ [i + 1 = length items])) (depth + 1)
                  (u @ [spec_line ancestors (i + 1 = length items) (name item)]) = (u', None)"
            by (simp add: body_def Let_def last spec_prefix_snoc spec_line_def)
          from children.IH [OF Inr mem this] x True show ?thesis
            by (simp add: g_def Let_def)
        next
          case False
          with that(2) x show ?thesis
            by (simp add: body_def g_def Let_def last spec_line_def)
        qed
      qed
      from for_each_appends [of body "enumerate 0 items" ls s1 g] loop r step
      have "s1 = ls @ concat (map g (enumerate 0 items))" by blast
      with s1 show ?thesis
        unfolding spec_render_Inr [OF deep Inr] items_def g_def by simp
    qed
  qed
qed


section \<open>Connectors and prefixes\<close>

text \<open>
  In the basic tree (\<^verbatim>\<open>walk_directory\<close>, called by
  \<^verbatim>\<open>generate_directory_tree\<close> of \<^verbatim>\<open>method1\<close>), every line of a walk that completes is
  drawn by the rule of the specification: the connector is the corner for the last
  sibling and the tee otherwise, and the prefix is the concatenation, over the
  ancestors below the root, of four spaces for an ancestor that was the last of its
  siblings and of the vertical bar with three spaces for one that was not. The
  theorem states it for a call at any depth (the prefix handed in being the one of
  the ancestors so far) and for the whole output of \<^verbatim>\<open>generate_directory_tree\<close>.
\<close>

theorem walk_directory_draws_by_last_sibling:
  "(walk_directory max_depth p (spec_prefix ancestors) depth ls = (ls', None) \<longrightarrow>
      ls' = ls @ spec_render max_depth ancestors depth p) \<and>
   (generate_directory_tree_method1 p max_depth = Inr rendered \<longrightarrow>
      rendered = join_lines
        ((if is_dir p then name p @ ''/'' else name p) # spec_render max_depth [] 0 p))"
proof (intro conjI impI)
  assume "walk_directory max_depth p (spec_prefix ancestors) depth ls = (ls', None)"
  then show "ls' = ls @ spec_render max_depth ancestors depth p"
    by (rule walk_directory_spec)
next
  assume gen: "generate_directory_tree_method1 p max_depth = Inr rendered"
  obtain ls r where w: "walk_directory max_depth p (spec_prefix []) 0
      [if is_dir p then name p @ ''/'' else name p] = (ls, r)"
    by (cases "walk_directory max_depth p (spec_prefix []) 0
      [if is_dir p then name p @ ''/'' else name p]")
  with gen have r: "r = None" and str: "rendered = join_lines ls"
    by (auto simp: generate_directory_tree_method1_def spec_prefix_def
          split: if_splits option.splits)
  from w r have "ls = [if is_dir p then name p @ ''/'' else name p] @ spec_render max_depth [] 0 p"
    by (auto dest: walk_directory_spec)
  with str show "rendered = join_lines
        ((if is_dir p then name p @ ''/'' else name p) # spec_render max_depth [] 0 p)"
    by simp
qed

theorem walk_directory_draws_by_last_sibling_witness:
  "walk_directory None example_root (spec_prefix []) 0 [] =
     ([spec_line [] False ''B'', spec_line [False] True ''c.txt'', spec_line [] True ''a.txt''],
      None) \<and>
   spec_render None [] 0 example_root =
     [tee @ ''B'', bar @ corner @ ''c.txt'', corner @ ''a.txt''] \<and>
   generate_directory_tree_method1 example_root None =
     Inr (join_lines [''root/'', tee @ ''B'', bar @ corner @ ''c.txt'', corner @ ''a.txt''])"
proof -
  have w: "walk_directory None example_root (spec_prefix []) 0 [] =
     ([spec_line [] False ''B'', spec_line [False] True ''c.txt'', spec_line [] True ''a.txt''],
      None)"
    by code_simp
  have g: "generate_directory_tree_method1 example_root None =
     Inr (join_lines [''root/'', tee @ ''B'', bar @ corner @ ''c.txt'', corner @ ''a.txt''])"
    by code_simp
  have d: "is_dir example_root" "name example_root = ''root''"
    by (simp_all add: example_root_def)
  from walk_directory_draws_by_last_sibling
         [of None example_root "[]" 0 "[]" _ "join_lines [''root/'', tee @ ''B'', bar @ corner @ ''c.txt'', corner @ ''a.txt'']"]
       w g
  have "spec_render None [] 0 example_root =
     [spec_line [] False ''B'', spec_line [False] True ''c.txt'', spec_line [] True ''a.txt'']"
    by simp
  then have "spec_render None [] 0 example_root =
     [tee @ ''B'', bar @ corner @ ''c.txt'', corner @ ''a.txt'']"
    by (simp add: spec_line_def spec_prefix_def)
  with w g show ?thesis by simp
qed

text \<open>
  Claim C7. \<^verbatim>\<open>build_tree\<close> of \<^verbatim>\<open>generate_ascii_tree\<close> computes \<^verbatim>\<open>is_last_item\<close> as
  the basic walker does, but takes the connector from \<^verbatim>\<open>i == 0\<close> and from the flag
  \<^verbatim>\<open>is_last\<close> of the directory being listed, and the prefix of the children from
  that same flag. In a directory with three files the basic walker draws tee, tee,
  corner; the ASCII tree draws the corner for the first file and four spaces with no
  glyph for the two after it. In the scenario of the specification \<^verbatim>\<open>B\<close>, which is
  not the last sibling, gets the corner, its child \<^verbatim>\<open>c.txt\<close> stands under four spaces
  and has the tee although it is the only entry of \<^verbatim>\<open>B\<close>, and \<^verbatim>\<open>a.txt\<close>, the last
  sibling, has no glyph. The first three lines of the walk are the header.
\<close>

theorem ascii_tree_connector_ignores_last_sibling:
  "drop 3 (tree_lines (fst (ascii_walk example_env example_three_files False None))) =
     [corner @ ''[F] a.txt (1 B)'',
      blank @ ''[F] b.txt (2 B)'',
      blank @ ''[F] c.txt (3 B)''] \<and>
   generate_directory_tree_method1 example_three_files None =
     Inr (join_lines [''r/'', tee @ ''a.txt'', tee @ ''b.txt'', corner @ ''c.txt'']) \<and>
   drop 3 (tree_lines (fst (ascii_walk example_env example_root False None))) =
     [corner @ ''[D] B/ (1f, 0d)'',
      blank @ tee @ ''[F] c.txt (5 B)'',
      blank @ ''[F] a.txt (10 B)''] \<and>
   [spec_line [] False ''[D] B/ (1f, 0d)'',
    spec_line [False] True ''[F] c.txt (5 B)'',
    spec_line [] True ''[F] a.txt (10 B)''] =
     [tee @ ''[D] B/ (1f, 0d)'',
      bar @ corner @ ''[F] c.txt (5 B)'',
      corner @ ''[F] a.txt (10 B)'']"
  by code_simp

section \<open>The dictionary of a directory\<close>

declare directory_to_dict.simps [simp del]

lemma foldl_children:
  "foldl (\<lambda>d item. if is_dir item then
                       (let child_dict = f item
                        in add_size (append_child d child_dict) (dict_size child_dict))
                     else (case stat item of
                             Inr st \<Rightarrow>
                               add_size
                                 (append_child d
                                    (FileD (name item) (str item) (st_size st) (st_mtime st)))
                                 (st_size st)
                           | Inl e \<Rightarrow> append_child d (FileErrorD (name item))))
     (DirectoryD n p sz m cs) items =
   DirectoryD n p
     (sz + sum_list (map (\<lambda>item. dict_size (if is_dir item then f item
         else case stat item of
             Inr st \<Rightarrow> FileD (name item) (str item) (st_size st) (st_mtime st)
           | Inl e \<Rightarrow> FileErrorD (name item))) items)) m
     (cs @ map (\<lambda>item. if is_dir item then f item
         else case stat item of
             Inr st \<Rightarrow> FileD (name item) (str item) (st_size st) (st_mtime st)
           | Inl e \<Rightarrow> FileErrorD (name item)) items)"
  by (induction items arbitrary: sz cs) (auto simp: Let_def split: sum.splits)

lemma directory_to_dict_limit:
  "max_depth \<noteq> None \<and> int current_depth \<ge> the max_depth \<Longrightarrow>
     directory_to_dict path max_depth current_depth =
       DirectoryD (name path) (str path) 0 (modified_of path) []"
  by (subst directory_to_dict.simps) (simp add: modified_of_def)

lemma directory_to_dict_Inl:
  "\<not> (max_depth \<noteq> None \<and> int current_depth \<ge> the max_depth) \<Longrightarrow> iterdir path = Inl e \<Longrightarrow>
     directory_to_dict path max_depth current_depth =
       DirectoryD (name path) (str path) 0 (modified_of path) [ErrorD]"
  by (subst directory_to_dict.simps) (cases max_depth; simp add: modified_of_def)

lemma directory_to_dict_Inr:
  "\<not> (max_depth \<noteq> None \<and> int current_depth \<ge> the max_depth) \<Longrightarrow> iterdir path = Inr listing \<Longrightarrow>
     directory_to_dict path max_depth current_depth =
       DirectoryD (name path) (str path)
         (sum_list (map (\<lambda>item. dict_size (child_dict max_depth current_depth item)) (sort_items listing)))
         (modified_of path)
         (map (child_dict max_depth current_depth) (sort_items listing))"
  by (subst directory_to_dict.simps)
     (cases max_depth; clarsimp simp: modified_of_def Let_def foldl_children child_dict_def)



lemma child_dict_kind [simp]:
  "dict_is_dir (child_dict max_depth current_depth item) = is_dir item"
  by (cases "stat item")
     (simp_all add: child_dict_def directory_to_dict.simps [of item] Let_def
        foldl_children split: sum.splits)


lemma directory_to_dict_shape:
  "\<exists>sz cs. directory_to_dict path max_depth current_depth =
             DirectoryD (name path) (str path) sz (modified_of path) cs"
proof (cases "max_depth \<noteq> None \<and> int current_depth \<ge> the max_depth")
  case True
  then show ?thesis by (simp add: directory_to_dict_limit)
next
  case False
  then show ?thesis
    by (cases "iterdir path") (simp_all add: directory_to_dict_Inl directory_to_dict_Inr)
qed

lemma child_dict_name [simp]:
  "dict_name (child_dict max_depth current_depth item) = name item"
proof (cases "is_dir item")
  case True
  obtain sz cs where "directory_to_dict item max_depth (current_depth + 1) =
      DirectoryD (name item) (str item) sz (modified_of item) cs"
    using directory_to_dict_shape by blast
  with True show ?thesis by (simp add: child_dict_def)
next
  case False
  then show ?thesis by (simp add: child_dict_def split: sum.splits)
qed


section \<open>The order of siblings\<close>



section \<open>The depth limit\<close>

declare rich_build_tree.simps [simp del]








lemma rich_build_tree_limit:
  "max_depth \<noteq> None \<and> int current_depth \<ge> the max_depth \<Longrightarrow>
     rich_build_tree env max_depth p parent_node current_depth =
       (tree_add parent_node (Tree ''[dim italic]... (depth limited)[/dim italic]'' []), None)"
  by (subst rich_build_tree.simps) simp

lemma rich_build_tree_Inl:
  "\<not> (max_depth \<noteq> None \<and> int current_depth \<ge> the max_depth) \<Longrightarrow> iterdir p = Inl e \<Longrightarrow>
     rich_build_tree env max_depth p parent_node current_depth =
       except_PermissionError
         (\<lambda>parent_node. tree_add parent_node (Tree ''[red][Permission Denied][/red]'' []))
         (parent_node, Some e)"
  by (subst rich_build_tree.simps) (cases max_depth; simp)

lemma rich_build_tree_Inr:
  "\<not> (max_depth \<noteq> None \<and> int current_depth \<ge> the max_depth) \<Longrightarrow> iterdir p = Inr listing \<Longrightarrow>
     rich_build_tree env max_depth p parent_node current_depth =
       except_PermissionError
         (\<lambda>parent_node. tree_add parent_node (Tree ''[red][Permission Denied][/red]'' []))
         (for_each (\<lambda>item parent_node.
                if is_dir item then
                  (case rich_build_tree env max_depth item (Tree (rich_dir_label item) [])
                          (current_depth + 1) of
                     (dir_node, raised) \<Rightarrow> (tree_add parent_node dir_node, raised))
                else
                  (let file_label = ''[green]'' @ name item @ ''[/green] '' @ rich_size_str env item
                   in (tree_add parent_node (Tree file_label []), None)))
              (sort_items listing) parent_node)"
  by (subst rich_build_tree.simps) (cases max_depth; simp)





section \<open>The ASCII tree: totals\<close>

declare build_tree.simps [simp del]

lemma visited_deep:
  "max_depth \<noteq> None \<and> int depth > the max_depth \<Longrightarrow> visited show_hidden max_depth depth p = []"
  by (subst visited.simps) simp

lemma visited_Inl:
  "iterdir p = Inl e \<Longrightarrow> visited show_hidden max_depth depth p = []"
  by (subst visited.simps) simp

lemma visited_Inr:
  "\<not> (max_depth \<noteq> None \<and> int depth > the max_depth) \<Longrightarrow> iterdir p = Inr listing \<Longrightarrow>
     visited show_hidden max_depth depth p =
       concat (map (\<lambda>item. item #
                    (if is_dir item then visited show_hidden max_depth (depth + 1) item else []))
            (sort_items (if \<not> show_hidden
                         then filter (\<lambda>item. \<not> startswith_dot (name item)) listing
                         else listing)))"
  by (subst visited.simps) (cases max_depth; simp)

lemma build_tree_deep:
  "max_depth \<noteq> None \<and> int depth > the max_depth \<Longrightarrow>
     build_tree env show_hidden max_depth p prefix is_last depth st = (st, None)"
  by (subst build_tree.simps) simp

lemma build_tree_Inl:
  "\<not> (max_depth \<noteq> None \<and> int depth > the max_depth) \<Longrightarrow> iterdir p = Inl e \<Longrightarrow>
     build_tree env show_hidden max_depth p prefix is_last depth st =
       except_PermissionError
         (\<lambda>st. st\<lparr>tree_lines := tree_lines st @ [prefix @ corner @ ''[Permission Denied]'']\<rparr>)
         (st, Some e)"
  by (subst build_tree.simps) (cases max_depth; simp)

lemma build_tree_Inr:
  "\<not> (max_depth \<noteq> None \<and> int depth > the max_depth) \<Longrightarrow> iterdir p = Inr listing \<Longrightarrow>
     build_tree env show_hidden max_depth p prefix is_last depth st =
       except_PermissionError
         (\<lambda>st. st\<lparr>tree_lines := tree_lines st @ [prefix @ corner @ ''[Permission Denied]'']\<rparr>)
         (let items = sort_items (if \<not> show_hidden
                          then filter (\<lambda>item. \<not> startswith_dot (name item)) listing else listing)
          in for_each (ascii_item env show_hidden max_depth (length items) prefix is_last depth)
               (enumerate 0 items) st)"
  by (subst build_tree.simps) (simp only: if_not_P if_False sum.case Let_def ascii_item_def)

lemma build_tree_no_PermissionError:
  "build_tree env show_hidden max_depth p prefix is_last depth st \<noteq> (st', Some PermissionError)"
  by (subst build_tree.simps) (simp add: except_no_PermissionError)

lemma ascii_item_no_PermissionError:
  "ascii_item env show_hidden max_depth n prefix is_last depth x st \<noteq> (st', Some PermissionError)"
  by (cases x)
     (simp add: ascii_item_def Let_def build_tree_no_PermissionError split: sum.splits)


lemma for_each_adds:
  fixes g :: "'s \<Rightarrow> int"
  assumes "for_each f xs s = (s', None)"
    and "\<And>x u u'. x \<in> set xs \<Longrightarrow> f x u = (u', None) \<Longrightarrow> g u' = g u + w x"
  shows "g s' = g s + sum_list (map w xs)"
  using assms
proof (induction xs arbitrary: s)
  case Nil
  then show ?case by simp
next
  case (Cons x xs)
  obtain s1 r where fx: "f x s = (s1, r)" by (cases "f x s")
  with Cons.prems(1) have r: "r = None" and rest: "for_each f xs s1 = (s', None)"
    by (auto split: option.splits)
  from Cons.prems(2) [of x s s1] fx r have "g s1 = g s + w x" by simp
  moreover have "g s' = g s1 + sum_list (map w xs)"
    by (rule Cons.IH [OF rest]) (rule Cons.prems(2), simp_all)
  ultimately show ?case by simp
qed

lemma sum_list_enumerate_snd:
  "sum_list (map (\<lambda>(i, x). w x) (enumerate n xs)) = sum_list (map w xs)"
  by (induction xs arbitrary: n) simp_all

lemma int_sum_list: "int (sum_list (map f xs)) = sum_list (map (\<lambda>x. int (f x)) xs)"
  by (induction xs) simp_all

lemma sum_list_concat_map:
  "sum_list (concat xss) = sum_list (map sum_list xss)"
  by (induction xss) simp_all

lemma for_each_completes:
  assumes "for_each f xs s = (s1, r)"
    and "except_PermissionError h (s1, r) = (s', None)"
    and "\<And>x u u'. f x u \<noteq> (u', Some PermissionError)"
  shows "r = None \<and> s' = s1"
proof -
  have "r \<noteq> Some PermissionError"
  proof
    assume "r = Some PermissionError"
    with assms(1) obtain x u where "f x u = (s1, Some PermissionError)"
      by (auto dest: for_each_raised)
    with assms(3) show False by blast
  qed
  with assms(2) show ?thesis
    by (auto dest: except_PermissionError_None)
qed

lemma build_tree_totals:
  "build_tree env show_hidden max_depth p prefix is_last depth st = (st', None) \<Longrightarrow>
     total_dirs st' = total_dirs st + int (length (visited_dirs show_hidden max_depth depth p)) \<and>
     total_files st' = total_files st + int (length (visited_files show_hidden max_depth depth p)) \<and>
     total_size st' = total_size st +
        sum_list (map size_or_zero (visited_files show_hidden max_depth depth p))"
proof (induction p arbitrary: prefix is_last depth st st' rule: entry_children_induct)
  case (children p)
  show ?case
  proof (cases "max_depth \<noteq> None \<and> int depth > the max_depth")
    case True
    with children.prems show ?thesis
      by (simp add: build_tree_deep visited_deep visited_dirs_def visited_files_def)
  next
    case deep: False
    show ?thesis
    proof (cases "iterdir p")
      case (Inl e)
      with children.prems show ?thesis
        unfolding build_tree_Inl [OF deep Inl]
        by (cases "e = PermissionError")
           (auto simp: visited_Inl visited_dirs_def visited_files_def)
    next
      case (Inr listing)
      define items where "items = sort_items (if \<not> show_hidden
                          then filter (\<lambda>item. \<not> startswith_dot (name item)) listing else listing)"
      define body where "body = ascii_item env show_hidden max_depth (length items) prefix is_last depth"
      have sub: "set items \<subseteq> set listing" by (auto simp: items_def)
      obtain s1 r where loop: "for_each body (enumerate 0 items) st = (s1, r)"
        by (cases "for_each body (enumerate 0 items) st")
      from children.prems loop
      have "except_PermissionError
         (\<lambda>st. st\<lparr>tree_lines := tree_lines st @ [prefix @ corner @ ''[Permission Denied]'']\<rparr>)
         (s1, r) = (st', None)"
        unfolding build_tree_Inr [OF deep Inr] items_def [symmetric] Let_def body_def [symmetric]
        by simp
      from for_each_completes [OF loop this]
      have r: "r = None" and s1: "st' = s1"
        by (simp_all add: body_def ascii_item_no_PermissionError)
      define wd where "wd = (\<lambda>item. if is_dir item
          then 1 + int (length (visited_dirs show_hidden max_depth (depth + 1) item)) else 0)"
      define wf where "wf = (\<lambda>item. if is_dir item
          then int (length (visited_files show_hidden max_depth (depth + 1) item)) else 1)"
      define wb where "wb = (\<lambda>item. if is_dir item
          then sum_list (map size_or_zero (visited_files show_hidden max_depth (depth + 1) item))
          else size_or_zero item)"
      have step: "total_dirs u' = total_dirs u + wd item \<and>
                  total_files u' = total_files u + wf item \<and>
                  total_size u' = total_size u + wb item"
        if "(i, item) \<in> set (enumerate 0 items)" and "body (i, item) u = (u', None)"
        for i item u u'
      proof (cases "is_dir item")
        case True
        from that(1) sub have mem: "item \<in> set listing"
          by (auto dest: enumerate_member)
        from that(2) True children.IH [OF Inr mem] show ?thesis
          by (auto simp: body_def ascii_item_def Let_def wd_def wf_def wb_def)
      next
        case False
        with that(2) show ?thesis
          by (auto simp: body_def ascii_item_def Let_def wd_def wf_def wb_def size_or_zero_def
                split: sum.splits)
      qed
      from loop r have finished: "for_each body (enumerate 0 items) st = (s1, None)" by simp
      have d: "total_dirs s1 = total_dirs st + sum_list (map (\<lambda>(i, x). wd x) (enumerate 0 items))"
        by (rule for_each_adds [OF finished]) (use step in auto)
      have f: "total_files s1 = total_files st + sum_list (map (\<lambda>(i, x). wf x) (enumerate 0 items))"
        by (rule for_each_adds [OF finished]) (use step in auto)
      have b: "total_size s1 = total_size st + sum_list (map (\<lambda>(i, x). wb x) (enumerate 0 items))"
        by (rule for_each_adds [OF finished]) (use step in auto)
      have v: "visited show_hidden max_depth depth p =
          concat (map (\<lambda>item. item #
                    (if is_dir item then visited show_hidden max_depth (depth + 1) item else []))
            items)"
        unfolding visited_Inr [OF deep Inr] items_def ..
      have "length (visited_dirs show_hidden max_depth depth p) =
            sum_list (map (\<lambda>item. if is_dir item
              then 1 + length (visited_dirs show_hidden max_depth (depth + 1) item) else 0) items)"
        unfolding visited_dirs_def v
        by (simp add: filter_concat length_concat o_def if_distrib [of length] cong: if_cong)
      then have vd: "int (length (visited_dirs show_hidden max_depth depth p)) =
            sum_list (map wd items)"
        unfolding wd_def
        by (simp add: int_sum_list)
           (rule arg_cong [where f = sum_list], rule map_cong, auto)
      have "length (visited_files show_hidden max_depth depth p) =
            sum_list (map (\<lambda>item. if is_dir item
              then length (visited_files show_hidden max_depth (depth + 1) item) else 1) items)"
        unfolding visited_files_def v
        by (simp add: filter_concat length_concat o_def)
           (rule arg_cong [where f = sum_list], rule map_cong, auto)
      then have vf: "int (length (visited_files show_hidden max_depth depth p)) =
            sum_list (map wf items)"
        unfolding wf_def
        by (simp add: int_sum_list)
           (rule arg_cong [where f = sum_list], rule map_cong, auto)
      have vb: "sum_list (map size_or_zero (visited_files show_hidden max_depth depth p)) =
                sum_list (map wb items)"
        unfolding visited_files_def v wb_def
        by (simp add: filter_concat map_concat sum_list_concat_map o_def)
           (rule arg_cong [where f = sum_list], rule map_cong, auto)
      from d f b vd vf vb s1 show ?thesis
        by (simp add: sum_list_enumerate_snd)
    qed
  qed
qed




lemma generate_ascii_tree_totals:
  assumes "generate_ascii_tree env path show_hidden max_depth = Inr out"
  shows "directories out = int (length (visited_dirs show_hidden max_depth 0 path))"
    and "files out = int (length (visited_files show_hidden max_depth 0 path))"
    and "bytes out = sum_list (map size_or_zero (visited_files show_hidden max_depth 0 path))"
proof -
  obtain st r where w: "ascii_walk env path show_hidden max_depth = (st, r)"
    by (cases "ascii_walk env path show_hidden max_depth")
  with assms have r: "r = None" and out: "directories out = total_dirs st"
      "files out = total_files st" "bytes out = total_size st"
    by (auto simp: generate_ascii_tree_def Let_def split: if_splits option.splits)
  from w r build_tree_totals [of env show_hidden max_depth path "[]" True 0 _ st]
  have "total_dirs st = int (length (visited_dirs show_hidden max_depth 0 path)) \<and>
        total_files st = int (length (visited_files show_hidden max_depth 0 path)) \<and>
        total_size st = sum_list (map size_or_zero (visited_files show_hidden max_depth 0 path))"
    by (simp add: ascii_walk_def)
  with out show "directories out = int (length (visited_dirs show_hidden max_depth 0 path))"
    and "files out = int (length (visited_files show_hidden max_depth 0 path))"
    and "bytes out = sum_list (map size_or_zero (visited_files show_hidden max_depth 0 path))"
    by simp_all
qed

section \<open>Sizes and the total\<close>




section \<open>The detailed tree, and files whose \<^verbatim>\<open>stat\<close> fails\<close>

declare process_directory.simps [simp del]

lemma process_directory_deep:
  "max_depth \<noteq> None \<and> int depth > the max_depth \<Longrightarrow>
     process_directory env show_hidden max_depth p prefix is_last depth st = (st, None)"
  by (subst process_directory.simps) simp

lemma process_directory_Inl:
  "\<not> (max_depth \<noteq> None \<and> int depth > the max_depth) \<Longrightarrow> iterdir p = Inl e \<Longrightarrow>
     process_directory env show_hidden max_depth p prefix is_last depth st =
       except_PermissionError
         (\<lambda>st. st\<lparr>tree_lines := tree_lines st @
                   [prefix @ corner @ lock_emoji @ '' [Permission Denied]'']\<rparr>)
         (st, Some e)"
  by (subst process_directory.simps) (cases max_depth; simp)

lemma process_directory_Inr:
  "\<not> (max_depth \<noteq> None \<and> int depth > the max_depth) \<Longrightarrow> iterdir p = Inr listing \<Longrightarrow>
     process_directory env show_hidden max_depth p prefix is_last depth st =
       except_PermissionError
         (\<lambda>st. st\<lparr>tree_lines := tree_lines st @
                   [prefix @ corner @ lock_emoji @ '' [Permission Denied]'']\<rparr>)
         (let items = sort_items (if \<not> show_hidden
                          then filter (\<lambda>item. \<not> startswith_dot (name item)) listing else listing)
          in for_each (detailed_item env show_hidden max_depth (length items) prefix is_last depth)
               (enumerate 0 items) st)"
  by (subst process_directory.simps)
     (simp only: if_not_P if_False sum.case Let_def detailed_item_def)

lemma process_directory_no_PermissionError:
  "process_directory env show_hidden max_depth p prefix is_last depth st \<noteq> (st', Some PermissionError)"
  by (subst process_directory.simps) (simp add: except_no_PermissionError)

lemma detailed_item_no_PermissionError:
  "detailed_item env show_hidden max_depth n prefix is_last depth x st \<noteq> (st', Some PermissionError)"
  by (cases x)
     (simp add: detailed_item_def Let_def process_directory_no_PermissionError split: sum.splits)

lemma for_each_preserves:
  assumes "for_each f xs s = (s', None)"
    and "\<And>y u u'. y \<in> set xs \<Longrightarrow> f y u = (u', None) \<Longrightarrow> Q u \<Longrightarrow> Q u'"
    and "Q s"
  shows "Q s'"
  using assms
proof (induction xs arbitrary: s)
  case Nil
  then show ?case by simp
next
  case (Cons y ys)
  obtain s1 r where fy: "f y s = (s1, r)" by (cases "f y s")
  with Cons.prems(1) have r: "r = None" and rest: "for_each f ys s1 = (s', None)"
    by (auto split: option.splits)
  from Cons.prems(2) [of y s s1] fy r Cons.prems(3) have "Q s1" by simp
  show ?case
  proof (rule Cons.IH [OF rest])
    show "Q s1" by fact
  next
    fix z u u'
    assume "z \<in> set ys" "f z u = (u', None)" "Q u"
    then show "Q u'" using Cons.prems(2) [of z u u'] by simp
  qed
qed

lemma enumerate_index:
  assumes "x \<in> set xs"
  shows "\<exists>i. (i, x) \<in> set (enumerate 0 xs)"
proof -
  from assms obtain i where "i < length xs" "xs ! i = x"
    by (auto simp: in_set_conv_nth)
  then have "(i, x) \<in> set (enumerate 0 xs)"
    by (simp add: in_set_enumerate_eq)
  then show ?thesis ..
qed

lemma for_each_establishes:
  assumes "for_each f xs s = (s', None)"
    and "\<And>y u u'. y \<in> set xs \<Longrightarrow> f y u = (u', None) \<Longrightarrow> Q u \<Longrightarrow> Q u'"
    and "x \<in> set xs"
    and "\<And>u u'. f x u = (u', None) \<Longrightarrow> Q u'"
  shows "Q s'"
  using assms
proof (induction xs arbitrary: s)
  case Nil
  then show ?case by simp
next
  case (Cons y ys)
  obtain s1 r where fy: "f y s = (s1, r)" by (cases "f y s")
  with Cons.prems(1) have r: "r = None" and rest: "for_each f ys s1 = (s', None)"
    by (auto split: option.splits)
  show ?case
  proof (cases "x = y")
    case True
    with fy r Cons.prems(4) have "Q s1" by simp
    show ?thesis
    proof (rule for_each_preserves [where Q = Q, OF rest])
      show "Q s1" by fact
    next
      fix z u u'
      assume "z \<in> set ys" "f z u = (u', None)" "Q u"
      then show "Q u'" using Cons.prems(2) [of z u u'] by simp
    qed
  next
    case False
    with Cons.prems(3) have "x \<in> set ys" by simp
    show ?thesis
    proof (rule Cons.IH [OF rest])
      show "x \<in> set ys" by fact
    next
      fix z u u'
      assume "z \<in> set ys" "f z u = (u', None)" "Q u"
      then show "Q u'" using Cons.prems(2) [of z u u'] by simp
    next
      fix u u'
      assume "f x u = (u', None)"
      then show "Q u'" by (rule Cons.prems(4))
    qed
  qed
qed

lemma visited_files_cases:
  assumes "\<not> (max_depth \<noteq> None \<and> int depth > the max_depth)" and "iterdir p = Inr listing"
    and "f \<in> set (visited_files show_hidden max_depth depth p)"
  obtains (here) "f \<in> set (sort_items (if \<not> show_hidden
                         then filter (\<lambda>item. \<not> startswith_dot (name item)) listing
                         else listing))" "\<not> is_dir f"
  | (below) item where "item \<in> set (sort_items (if \<not> show_hidden
                         then filter (\<lambda>item. \<not> startswith_dot (name item)) listing
                         else listing))" "is_dir item"
       "f \<in> set (visited_files show_hidden max_depth (depth + 1) item)"
  using assms(3) unfolding visited_files_def visited_Inr [OF assms(1,2)]
  by (auto split: if_splits)

lemma ascii_item_dir:
  "is_dir item \<Longrightarrow>
     ascii_item env show_hidden max_depth n prefix is_last depth (i, item) u =
       build_tree env show_hidden max_depth item (prefix @ (if is_last then blank else bar))
         (int i = int n - 1) (depth + 1)
         (u\<lparr>total_dirs := total_dirs u + 1,
            tree_lines := tree_lines u @
              [prefix @ (if i = 0 then (if is_last then corner else tee)
                         else (if is_last then blank else bar))
               @ ''[D] '' @ ascii_dir_label show_hidden item]\<rparr>)"
  by (simp add: ascii_item_def Let_def)

lemma ascii_item_file:
  "\<not> is_dir item \<Longrightarrow>
     ascii_item env show_hidden max_depth n prefix is_last depth (i, item) u =
       (case stat item of
          Inr sr \<Rightarrow>
            (u\<lparr>total_files := total_files u + 1,
               total_size := total_size u + st_size sr,
               tree_lines := tree_lines u @
                 [prefix @ (if i = 0 then (if is_last then corner else tee)
                            else (if is_last then blank else bar))
                  @ ''[F] '' @ name item @ '' ('' @ ascii_size_str env (st_size sr) @ '')'']\<rparr>,
             None)
        | Inl e \<Rightarrow>
            (u\<lparr>total_files := total_files u + 1,
               tree_lines := tree_lines u @
                 [prefix @ (if i = 0 then (if is_last then corner else tee)
                            else (if is_last then blank else bar))
                  @ ''[F] '' @ name item @ '' (access denied)'']\<rparr>,
             None))"
  by (simp add: ascii_item_def Let_def split: sum.splits)

lemma build_tree_access_denied:
  "build_tree env show_hidden max_depth p prefix is_last depth st = (st', None) \<Longrightarrow>
     set (tree_lines st) \<subseteq> set (tree_lines st') \<and>
     (\<forall>f \<in> set (visited_files show_hidden max_depth depth p).
        (\<exists>e. stat f = Inl e) \<longrightarrow>
        (\<exists>pre. pre @ ''[F] '' @ name f @ '' (access denied)'' \<in> set (tree_lines st')))"
proof (induction p arbitrary: prefix is_last depth st st' rule: entry_children_induct)
  case (children p)
  show ?case
  proof (cases "max_depth \<noteq> None \<and> int depth > the max_depth")
    case True
    with children.prems show ?thesis
      by (simp add: build_tree_deep visited_deep visited_files_def)
  next
    case deep: False
    show ?thesis
    proof (cases "iterdir p")
      case (Inl e)
      with children.prems show ?thesis
        unfolding build_tree_Inl [OF deep Inl]
        by (cases "e = PermissionError") (auto simp: visited_Inl visited_files_def)
    next
      case (Inr listing)
      define items where "items = sort_items (if \<not> show_hidden
                          then filter (\<lambda>item. \<not> startswith_dot (name item)) listing else listing)"
      define body where "body = ascii_item env show_hidden max_depth (length items) prefix is_last depth"
      have sub: "set items \<subseteq> set listing" by (auto simp: items_def)
      obtain s1 r where loop: "for_each body (enumerate 0 items) st = (s1, r)"
        by (cases "for_each body (enumerate 0 items) st")
      from children.prems loop
      have "except_PermissionError
         (\<lambda>st. st\<lparr>tree_lines := tree_lines st @ [prefix @ corner @ ''[Permission Denied]'']\<rparr>)
         (s1, r) = (st', None)"
        unfolding build_tree_Inr [OF deep Inr] items_def [symmetric] Let_def body_def [symmetric]
        by simp
      from for_each_completes [OF loop this]
      have r: "r = None" and s1: "st' = s1"
        by (simp_all add: body_def ascii_item_no_PermissionError)
      from loop r have finished: "for_each body (enumerate 0 items) st = (s1, None)" by simp
      have mono: "set (tree_lines u) \<subseteq> set (tree_lines u')"
        if "x \<in> set (enumerate 0 items)" and "body x u = (u', None)" for x u u'
      proof -
        obtain i item where x: "x = (i, item)" by (cases x)
        show ?thesis
        proof (cases "is_dir item")
          case True
          from that(1) x sub have mem: "item \<in> set listing"
            by (auto dest: enumerate_member)
          from that(2) x have "ascii_item env show_hidden max_depth (length items) prefix is_last
              depth (i, item) u = (u', None)"
            by (simp add: body_def)
          from children.IH [OF Inr mem this [unfolded ascii_item_dir [OF True]]]
          show ?thesis by auto
        next
          case False
          with that(2) x show ?thesis
            by (auto simp: body_def ascii_item_file split: sum.splits)
        qed
      qed
      have grows: "set (tree_lines st) \<subseteq> set (tree_lines s1)"
        by (rule for_each_preserves
              [where Q = "\<lambda>u. set (tree_lines st) \<subseteq> set (tree_lines u)", OF finished])
           (use mono in blast)+
      have denied: "\<exists>pre. pre @ ''[F] '' @ name f @ '' (access denied)'' \<in> set (tree_lines s1)"
        if f: "f \<in> set (visited_files show_hidden max_depth depth p)" and e: "stat f = Inl e" for f e
        using deep Inr f
      proof (cases rule: visited_files_cases)
        case here
        from enumerate_index [OF here(1) [folded items_def]]
        obtain i where i: "(i, f) \<in> set (enumerate 0 items)" ..
        show ?thesis
        proof (rule for_each_establishes
            [where Q = "\<lambda>u. \<exists>pre. pre @ ''[F] '' @ name f @ '' (access denied)'' \<in> set (tree_lines u)",
             OF finished _ i])
          fix u u' assume "body (i, f) u = (u', None)"
          with here(2) e
          show "\<exists>pre. pre @ ''[F] '' @ name f @ '' (access denied)'' \<in> set (tree_lines u')"
            by (auto simp: body_def ascii_item_file)
        next
          fix y u u'
          assume "y \<in> set (enumerate 0 items)" "body y u = (u', None)"
            "\<exists>pre. pre @ ''[F] '' @ name f @ '' (access denied)'' \<in> set (tree_lines u)"
          with mono show "\<exists>pre. pre @ ''[F] '' @ name f @ '' (access denied)'' \<in> set (tree_lines u')"
            by blast
        qed
      next
        case (below item)
        then have mem: "item \<in> set listing" by (auto split: if_splits)
        from enumerate_index [OF below(1) [folded items_def]]
        obtain i where i: "(i, item) \<in> set (enumerate 0 items)" ..
        show ?thesis
        proof (rule for_each_establishes
            [where Q = "\<lambda>u. \<exists>pre. pre @ ''[F] '' @ name f @ '' (access denied)'' \<in> set (tree_lines u)",
             OF finished _ i])
          fix u u' assume "body (i, item) u = (u', None)"
          then have "ascii_item env show_hidden max_depth (length items) prefix is_last
              depth (i, item) u = (u', None)"
            by (simp add: body_def)
          from children.IH [OF Inr mem this [unfolded ascii_item_dir [OF below(2)]]] below(3) e
          show "\<exists>pre. pre @ ''[F] '' @ name f @ '' (access denied)'' \<in> set (tree_lines u')"
            by blast
        next
          fix y u u'
          assume "y \<in> set (enumerate 0 items)" "body y u = (u', None)"
            "\<exists>pre. pre @ ''[F] '' @ name f @ '' (access denied)'' \<in> set (tree_lines u)"
          with mono show "\<exists>pre. pre @ ''[F] '' @ name f @ '' (access denied)'' \<in> set (tree_lines u')"
            by blast
        qed
      qed
      from grows denied s1 show ?thesis by blast
    qed
  qed
qed

lemma detailed_item_dir:
  "is_dir item \<Longrightarrow>
     detailed_item env show_hidden max_depth n prefix is_last depth (i, item) u =
       process_directory env show_hidden max_depth item (prefix @ (if is_last then blank else bar))
         (int i = int n - 1) (depth + 1)
         (u\<lparr>total_dirs := total_dirs u + 1,
            tree_lines := tree_lines u @
              [prefix @ (if i = 0 then (if is_last then corner else tee)
                         else (if is_last then blank else bar))
               @ (folder_emoji @ '' '') @ name item @ detailed_count_info show_hidden item]\<rparr>)"
  by (simp add: detailed_item_def Let_def)

lemma detailed_item_file:
  "\<not> is_dir item \<Longrightarrow>
     detailed_item env show_hidden max_depth n prefix is_last depth (i, item) u =
       (case stat item of
          Inr sr \<Rightarrow>
            (u\<lparr>total_files := total_files u + 1,
               total_size := total_size u + st_size sr,
               tree_lines := tree_lines u @
                 [prefix @ (if i = 0 then (if is_last then corner else tee)
                            else (if is_last then blank else bar))
                  @ (page_emoji @ '' '') @ name item @ detailed_size_str env (st_size sr)]\<rparr>,
             None)
        | Inl e \<Rightarrow>
            (u\<lparr>total_files := total_files u + 1,
               tree_lines := tree_lines u @
                 [prefix @ (if i = 0 then (if is_last then corner else tee)
                            else (if is_last then blank else bar))
                  @ (page_emoji @ '' '') @ name item]\<rparr>,
             None))"
  by (simp add: detailed_item_def Let_def split: sum.splits)

lemma process_directory_totals:
  "process_directory env show_hidden max_depth p prefix is_last depth st = (st', None) \<Longrightarrow>
     total_dirs st' = total_dirs st + int (length (visited_dirs show_hidden max_depth depth p)) \<and>
     total_files st' = total_files st + int (length (visited_files show_hidden max_depth depth p)) \<and>
     total_size st' = total_size st +
        sum_list (map size_or_zero (visited_files show_hidden max_depth depth p))"
proof (induction p arbitrary: prefix is_last depth st st' rule: entry_children_induct)
  case (children p)
  show ?case
  proof (cases "max_depth \<noteq> None \<and> int depth > the max_depth")
    case True
    with children.prems show ?thesis
      by (simp add: process_directory_deep visited_deep visited_dirs_def visited_files_def)
  next
    case deep: False
    show ?thesis
    proof (cases "iterdir p")
      case (Inl e)
      with children.prems show ?thesis
        unfolding process_directory_Inl [OF deep Inl]
        by (cases "e = PermissionError")
           (auto simp: visited_Inl visited_dirs_def visited_files_def)
    next
      case (Inr listing)
      define items where "items = sort_items (if \<not> show_hidden
                          then filter (\<lambda>item. \<not> startswith_dot (name item)) listing else listing)"
      define body where "body = detailed_item env show_hidden max_depth (length items) prefix is_last depth"
      have sub: "set items \<subseteq> set listing" by (auto simp: items_def)
      obtain s1 r where loop: "for_each body (enumerate 0 items) st = (s1, r)"
        by (cases "for_each body (enumerate 0 items) st")
      from children.prems loop
      have "except_PermissionError
         (\<lambda>st. st\<lparr>tree_lines := tree_lines st @ [prefix @ corner @ lock_emoji @ '' [Permission Denied]'']\<rparr>)
         (s1, r) = (st', None)"
        unfolding process_directory_Inr [OF deep Inr] items_def [symmetric] Let_def body_def [symmetric]
        by simp
      from for_each_completes [OF loop this]
      have r: "r = None" and s1: "st' = s1"
        by (simp_all add: body_def detailed_item_no_PermissionError)
      define wd where "wd = (\<lambda>item. if is_dir item
          then 1 + int (length (visited_dirs show_hidden max_depth (depth + 1) item)) else 0)"
      define wf where "wf = (\<lambda>item. if is_dir item
          then int (length (visited_files show_hidden max_depth (depth + 1) item)) else 1)"
      define wb where "wb = (\<lambda>item. if is_dir item
          then sum_list (map size_or_zero (visited_files show_hidden max_depth (depth + 1) item))
          else size_or_zero item)"
      have step: "total_dirs u' = total_dirs u + wd item \<and>
                  total_files u' = total_files u + wf item \<and>
                  total_size u' = total_size u + wb item"
        if "(i, item) \<in> set (enumerate 0 items)" and "body (i, item) u = (u', None)"
        for i item u u'
      proof (cases "is_dir item")
        case True
        from that(1) sub have mem: "item \<in> set listing"
          by (auto dest: enumerate_member)
        from that(2) True children.IH [OF Inr mem] show ?thesis
          by (auto simp: body_def detailed_item_def Let_def wd_def wf_def wb_def)
      next
        case False
        with that(2) show ?thesis
          by (auto simp: body_def detailed_item_def Let_def wd_def wf_def wb_def size_or_zero_def
                split: sum.splits)
      qed
      from loop r have finished: "for_each body (enumerate 0 items) st = (s1, None)" by simp
      have d: "total_dirs s1 = total_dirs st + sum_list (map (\<lambda>(i, x). wd x) (enumerate 0 items))"
        by (rule for_each_adds [OF finished]) (use step in auto)
      have f: "total_files s1 = total_files st + sum_list (map (\<lambda>(i, x). wf x) (enumerate 0 items))"
        by (rule for_each_adds [OF finished]) (use step in auto)
      have b: "total_size s1 = total_size st + sum_list (map (\<lambda>(i, x). wb x) (enumerate 0 items))"
        by (rule for_each_adds [OF finished]) (use step in auto)
      have v: "visited show_hidden max_depth depth p =
          concat (map (\<lambda>item. item #
                    (if is_dir item then visited show_hidden max_depth (depth + 1) item else []))
            items)"
        unfolding visited_Inr [OF deep Inr] items_def ..
      have "length (visited_dirs show_hidden max_depth depth p) =
            sum_list (map (\<lambda>item. if is_dir item
              then 1 + length (visited_dirs show_hidden max_depth (depth + 1) item) else 0) items)"
        unfolding visited_dirs_def v
        by (simp add: filter_concat length_concat o_def if_distrib [of length] cong: if_cong)
      then have vd: "int (length (visited_dirs show_hidden max_depth depth p)) =
            sum_list (map wd items)"
        unfolding wd_def
        by (simp add: int_sum_list)
           (rule arg_cong [where f = sum_list], rule map_cong, auto)
      have "length (visited_files show_hidden max_depth depth p) =
            sum_list (map (\<lambda>item. if is_dir item
              then length (visited_files show_hidden max_depth (depth + 1) item) else 1) items)"
        unfolding visited_files_def v
        by (simp add: filter_concat length_concat o_def)
           (rule arg_cong [where f = sum_list], rule map_cong, auto)
      then have vf: "int (length (visited_files show_hidden max_depth depth p)) =
            sum_list (map wf items)"
        unfolding wf_def
        by (simp add: int_sum_list)
           (rule arg_cong [where f = sum_list], rule map_cong, auto)
      have vb: "sum_list (map size_or_zero (visited_files show_hidden max_depth depth p)) =
                sum_list (map wb items)"
        unfolding visited_files_def v wb_def
        by (simp add: filter_concat map_concat sum_list_concat_map o_def)
           (rule arg_cong [where f = sum_list], rule map_cong, auto)
      from d f b vd vf vb s1 show ?thesis
        by (simp add: sum_list_enumerate_snd)
    qed
  qed
qed


lemma process_directory_no_size:
  "process_directory env show_hidden max_depth p prefix is_last depth st = (st', None) \<Longrightarrow>
     set (tree_lines st) \<subseteq> set (tree_lines st') \<and>
     (\<forall>f \<in> set (visited_files show_hidden max_depth depth p).
        (\<exists>e. stat f = Inl e) \<longrightarrow>
        (\<exists>pre. pre @ page_emoji @ '' '' @ name f \<in> set (tree_lines st')))"
proof (induction p arbitrary: prefix is_last depth st st' rule: entry_children_induct)
  case (children p)
  show ?case
  proof (cases "max_depth \<noteq> None \<and> int depth > the max_depth")
    case True
    with children.prems show ?thesis
      by (simp add: process_directory_deep visited_deep visited_files_def)
  next
    case deep: False
    show ?thesis
    proof (cases "iterdir p")
      case (Inl e)
      with children.prems show ?thesis
        unfolding process_directory_Inl [OF deep Inl]
        by (cases "e = PermissionError") (auto simp: visited_Inl visited_files_def)
    next
      case (Inr listing)
      define items where "items = sort_items (if \<not> show_hidden
                          then filter (\<lambda>item. \<not> startswith_dot (name item)) listing else listing)"
      define body where "body = detailed_item env show_hidden max_depth (length items) prefix is_last depth"
      have sub: "set items \<subseteq> set listing" by (auto simp: items_def)
      obtain s1 r where loop: "for_each body (enumerate 0 items) st = (s1, r)"
        by (cases "for_each body (enumerate 0 items) st")
      from children.prems loop
      have "except_PermissionError
         (\<lambda>st. st\<lparr>tree_lines := tree_lines st @ [prefix @ corner @ lock_emoji @ '' [Permission Denied]'']\<rparr>)
         (s1, r) = (st', None)"
        unfolding process_directory_Inr [OF deep Inr] items_def [symmetric] Let_def body_def [symmetric]
        by simp
      from for_each_completes [OF loop this]
      have r: "r = None" and s1: "st' = s1"
        by (simp_all add: body_def detailed_item_no_PermissionError)
      from loop r have finished: "for_each body (enumerate 0 items) st = (s1, None)" by simp
      have mono: "set (tree_lines u) \<subseteq> set (tree_lines u')"
        if "x \<in> set (enumerate 0 items)" and "body x u = (u', None)" for x u u'
      proof -
        obtain i item where x: "x = (i, item)" by (cases x)
        show ?thesis
        proof (cases "is_dir item")
          case True
          from that(1) x sub have mem: "item \<in> set listing"
            by (auto dest: enumerate_member)
          from that(2) x have "detailed_item env show_hidden max_depth (length items) prefix is_last
              depth (i, item) u = (u', None)"
            by (simp add: body_def)
          from children.IH [OF Inr mem this [unfolded detailed_item_dir [OF True]]]
          show ?thesis by auto
        next
          case False
          with that(2) x show ?thesis
            by (auto simp: body_def detailed_item_file split: sum.splits)
        qed
      qed
      have grows: "set (tree_lines st) \<subseteq> set (tree_lines s1)"
        by (rule for_each_preserves
              [where Q = "\<lambda>u. set (tree_lines st) \<subseteq> set (tree_lines u)", OF finished])
           (use mono in blast)+
      have denied: "\<exists>pre. pre @ page_emoji @ '' '' @ name f \<in> set (tree_lines s1)"
        if f: "f \<in> set (visited_files show_hidden max_depth depth p)" and e: "stat f = Inl e" for f e
        using deep Inr f
      proof (cases rule: visited_files_cases)
        case here
        from enumerate_index [OF here(1) [folded items_def]]
        obtain i where i: "(i, f) \<in> set (enumerate 0 items)" ..
        show ?thesis
        proof (rule for_each_establishes
            [where Q = "\<lambda>u. \<exists>pre. pre @ page_emoji @ '' '' @ name f \<in> set (tree_lines u)",
             OF finished _ i])
          fix u u' assume "body (i, f) u = (u', None)"
          with here(2) e
          show "\<exists>pre. pre @ page_emoji @ '' '' @ name f \<in> set (tree_lines u')"
            by (auto simp: body_def detailed_item_file)
        next
          fix y u u'
          assume "y \<in> set (enumerate 0 items)" "body y u = (u', None)"
            "\<exists>pre. pre @ page_emoji @ '' '' @ name f \<in> set (tree_lines u)"
          with mono show "\<exists>pre. pre @ page_emoji @ '' '' @ name f \<in> set (tree_lines u')"
            by blast
        qed
      next
        case (below item)
        then have mem: "item \<in> set listing" by (auto split: if_splits)
        from enumerate_index [OF below(1) [folded items_def]]
        obtain i where i: "(i, item) \<in> set (enumerate 0 items)" ..
        show ?thesis
        proof (rule for_each_establishes
            [where Q = "\<lambda>u. \<exists>pre. pre @ page_emoji @ '' '' @ name f \<in> set (tree_lines u)",
             OF finished _ i])
          fix u u' assume "body (i, item) u = (u', None)"
          then have "detailed_item env show_hidden max_depth (length items) prefix is_last
              depth (i, item) u = (u', None)"
            by (simp add: body_def)
          from children.IH [OF Inr mem this [unfolded detailed_item_dir [OF below(2)]]] below(3) e
          show "\<exists>pre. pre @ page_emoji @ '' '' @ name f \<in> set (tree_lines u')"
            by blast
        next
          fix y u u'
          assume "y \<in> set (enumerate 0 items)" "body y u = (u', None)"
            "\<exists>pre. pre @ page_emoji @ '' '' @ name f \<in> set (tree_lines u)"
          with mono show "\<exists>pre. pre @ page_emoji @ '' '' @ name f \<in> set (tree_lines u')"
            by blast
        qed
      qed
      from grows denied s1 show ?thesis by blast
    qed
  qed
qed


lemma generate_detailed_tree_totals:
  assumes "generate_detailed_tree env path show_hidden max_depth = Inr out"
  shows "directories out = int (length (visited_dirs show_hidden max_depth 0 path))"
    and "files out = int (length (visited_files show_hidden max_depth 0 path))"
    and "bytes out = sum_list (map size_or_zero (visited_files show_hidden max_depth 0 path))"
proof -
  obtain st r where w: "detailed_walk env path show_hidden max_depth = (st, r)"
    by (cases "detailed_walk env path show_hidden max_depth")
  with assms have r: "r = None" and out: "directories out = total_dirs st"
      "files out = total_files st" "bytes out = total_size st"
    by (auto simp: generate_detailed_tree_def Let_def split: if_splits option.splits)
  from w r process_directory_totals [of env show_hidden max_depth path "[]" True 0 _ st]
  have "total_dirs st = int (length (visited_dirs show_hidden max_depth 0 path)) \<and>
        total_files st = int (length (visited_files show_hidden max_depth 0 path)) \<and>
        total_size st = sum_list (map size_or_zero (visited_files show_hidden max_depth 0 path))"
    by (simp add: detailed_walk_def)
  with out show "directories out = int (length (visited_dirs show_hidden max_depth 0 path))"
    and "files out = int (length (visited_files show_hidden max_depth 0 path))"
    and "bytes out = sum_list (map size_or_zero (visited_files show_hidden max_depth 0 path))"
    by simp_all
qed


text \<open>
  Claim C9. The \<^verbatim>\<open>stat\<close> call of the loop is reached for an entry to which
  \<^verbatim>\<open>is_dir()\<close> has answered \<open>False\<close>; in every version of pathlib that is the answer
  when \<^verbatim>\<open>stat\<close> fails with \<^verbatim>\<open>FileNotFoundError\<close> or \<^verbatim>\<open>NotADirectoryError\<close>. In
  \<^verbatim>\<open>generate_ascii_tree\<close> and \<^verbatim>\<open>generate_detailed_tree\<close> the step of the loop for
  such a file adds one to the file counter, leaves the total size as it is, and
  appends the line of the file with the annotation \<^verbatim>\<open>(access denied)\<close> (ASCII tree)
  or with nothing after the name (detailed tree). For a walk that completes on a
  portable file system, the file total that is reported is the number of all visited
  entries that are not directories, whatever their \<^verbatim>\<open>stat\<close> did, the total size is
  the sum of their sizes with zero for those whose \<^verbatim>\<open>stat\<close> failed, and the line of
  every such file is among the lines.
\<close>

theorem failed_stat_counted_with_zero_bytes:
  "(\<not> is_dir item \<and> stat item = Inl e \<and> ignored_by_is_dir e \<longrightarrow>
      ascii_item env show_hidden max_depth n prefix is_last depth (i, item) u =
        (u\<lparr>total_files := total_files u + 1,
           tree_lines := tree_lines u @
             [prefix @ (if i = 0 then (if is_last then corner else tee)
                        else (if is_last then blank else bar))
              @ ''[F] '' @ name item @ '' (access denied)'']\<rparr>, None) \<and>
      detailed_item env show_hidden max_depth n prefix is_last depth (i, item) u =
        (u\<lparr>total_files := total_files u + 1,
           tree_lines := tree_lines u @
             [prefix @ (if i = 0 then (if is_last then corner else tee)
                        else (if is_last then blank else bar))
              @ (page_emoji @ '' '') @ name item]\<rparr>, None)) \<and>
   (stat item = Inl e \<longrightarrow> size_or_zero item = 0) \<and>
   (portable path \<and> generate_ascii_tree env path show_hidden max_depth = Inr out \<longrightarrow>
      files out = int (length (visited_files show_hidden max_depth 0 path)) \<and>
      bytes out = sum_list (map size_or_zero (visited_files show_hidden max_depth 0 path))) \<and>
   (portable path \<and> generate_detailed_tree env path show_hidden max_depth = Inr out' \<longrightarrow>
      files out' = int (length (visited_files show_hidden max_depth 0 path)) \<and>
      bytes out' = sum_list (map size_or_zero (visited_files show_hidden max_depth 0 path))) \<and>
   (portable path \<and> ascii_walk env path show_hidden max_depth = (st, None) \<and>
    item \<in> set (visited_files show_hidden max_depth 0 path) \<and> stat item = Inl e \<longrightarrow>
      (\<exists>pre. pre @ ''[F] '' @ name item @ '' (access denied)'' \<in> set (tree_lines st))) \<and>
   (portable path \<and> detailed_walk env path show_hidden max_depth = (st', None) \<and>
    item \<in> set (visited_files show_hidden max_depth 0 path) \<and> stat item = Inl e \<longrightarrow>
      (\<exists>pre. pre @ page_emoji @ '' '' @ name item \<in> set (tree_lines st')))"
proof (intro conjI impI)
  assume "\<not> is_dir item \<and> stat item = Inl e \<and> ignored_by_is_dir e"
  then show "ascii_item env show_hidden max_depth n prefix is_last depth (i, item) u =
        (u\<lparr>total_files := total_files u + 1,
           tree_lines := tree_lines u @
             [prefix @ (if i = 0 then (if is_last then corner else tee)
                        else (if is_last then blank else bar))
              @ ''[F] '' @ name item @ '' (access denied)'']\<rparr>, None)"
    and "detailed_item env show_hidden max_depth n prefix is_last depth (i, item) u =
        (u\<lparr>total_files := total_files u + 1,
           tree_lines := tree_lines u @
             [prefix @ (if i = 0 then (if is_last then corner else tee)
                        else (if is_last then blank else bar))
              @ (page_emoji @ '' '') @ name item]\<rparr>, None)"
    by (simp_all add: ascii_item_file detailed_item_file)
next
  assume "stat item = Inl e"
  then show "size_or_zero item = 0" by (simp add: size_or_zero_def)
next
  assume "portable path \<and> generate_ascii_tree env path show_hidden max_depth = Inr out"
  then have "generate_ascii_tree env path show_hidden max_depth = Inr out" ..
  then show "files out = int (length (visited_files show_hidden max_depth 0 path))"
    and "bytes out = sum_list (map size_or_zero (visited_files show_hidden max_depth 0 path))"
    by (rule generate_ascii_tree_totals)+
next
  assume "portable path \<and> generate_detailed_tree env path show_hidden max_depth = Inr out'"
  then have "generate_detailed_tree env path show_hidden max_depth = Inr out'" ..
  then show "files out' = int (length (visited_files show_hidden max_depth 0 path))"
    and "bytes out' = sum_list (map size_or_zero (visited_files show_hidden max_depth 0 path))"
    by (rule generate_detailed_tree_totals)+
next
  assume "portable path \<and> ascii_walk env path show_hidden max_depth = (st, None) \<and>
    item \<in> set (visited_files show_hidden max_depth 0 path) \<and> stat item = Inl e"
  then show "\<exists>pre. pre @ ''[F] '' @ name item @ '' (access denied)'' \<in> set (tree_lines st)"
    using build_tree_access_denied [of env show_hidden max_depth path "[]" True 0 _ st]
    by (auto simp: ascii_walk_def)
next
  assume "portable path \<and> detailed_walk env path show_hidden max_depth = (st', None) \<and>
    item \<in> set (visited_files show_hidden max_depth 0 path) \<and> stat item = Inl e"
  then show "\<exists>pre. pre @ page_emoji @ '' '' @ name item \<in> set (tree_lines st')"
    using process_directory_no_size [of env show_hidden max_depth path "[]" True 0 _ st']
    by (auto simp: detailed_walk_def)
qed

text \<open>
  A directory with a dangling link \<^verbatim>\<open>a.lnk\<close> and a file \<^verbatim>\<open>b.txt\<close> of 3 bytes: two
  files and 3 bytes are reported, and the link has its line.
\<close>

theorem failed_stat_counted_with_zero_bytes_witness:
  "portable example_dangling \<and>
   visited_files False None 0 example_dangling =
     [File ''a.lnk'' ''/d/a.lnk'' (Inl FileNotFoundError),
      File ''b.txt'' ''/d/b.txt'' (Inr \<lparr>st_size = 3, st_mtime = 0\<rparr>)] \<and>
   map_sum id files (generate_ascii_tree example_env example_dangling False None) = Inr 2 \<and>
   map_sum id bytes (generate_ascii_tree example_env example_dangling False None) = Inr 3 \<and>
   map_sum id files (generate_detailed_tree example_env example_dangling False None) = Inr 2 \<and>
   map_sum id bytes (generate_detailed_tree example_env example_dangling False None) = Inr 3 \<and>
   drop 3 (tree_lines (fst (ascii_walk example_env example_dangling False None))) =
     [corner @ ''[F] a.lnk (access denied)'', blank @ ''[F] b.txt (3 B)''] \<and>
   drop 2 (tree_lines (fst (detailed_walk example_env example_dangling False None))) =
     [corner @ page_emoji @ '' a.lnk'', blank @ page_emoji @ '' b.txt (3 bytes)'']"
proof -
  let ?link = "File ''a.lnk'' ''/d/a.lnk'' (Inl FileNotFoundError)"
  have p: "portable example_dangling"
    by (simp add: example_dangling_def ignored_by_is_dir_def)
  have v: "visited_files False None 0 example_dangling =
     [?link, File ''b.txt'' ''/d/b.txt'' (Inr \<lparr>st_size = 3, st_mtime = 0\<rparr>)]"
    by code_simp
  have "\<not> isl (generate_ascii_tree example_env example_dangling False None)"
    by code_simp
  then obtain out where a: "generate_ascii_tree example_env example_dangling False None = Inr out"
    by (cases "generate_ascii_tree example_env example_dangling False None") auto
  have "\<not> isl (generate_detailed_tree example_env example_dangling False None)"
    by code_simp
  then obtain out' where d: "generate_detailed_tree example_env example_dangling False None = Inr out'"
    by (cases "generate_detailed_tree example_env example_dangling False None") auto
  have la: "drop 3 (tree_lines (fst (ascii_walk example_env example_dangling False None))) =
     [corner @ ''[F] a.lnk (access denied)'', blank @ ''[F] b.txt (3 B)'']"
    by code_simp
  have ld: "drop 2 (tree_lines (fst (detailed_walk example_env example_dangling False None))) =
     [corner @ page_emoji @ '' a.lnk'', blank @ page_emoji @ '' b.txt (3 bytes)'']"
    by code_simp
  from failed_stat_counted_with_zero_bytes
         [of ?link FileNotFoundError example_env False None 2 "[]" True 0 0 _
             example_dangling out out']
       a d v p
  have "files out = 2 \<and> bytes out = 3 \<and> files out' = 2 \<and> bytes out' = 3"
    by (simp add: size_or_zero_def)
  with a d v p la ld show ?thesis by simp
qed

section \<open>Hidden entries\<close>

lemma strip_hidden_simps [simp]:
  "name (strip_hidden e) = name e"
  "str (strip_hidden e) = str e"
  "is_dir (strip_hidden e) = is_dir e"
  "is_file (strip_hidden e) = is_file e"
  "stat (strip_hidden e) = stat e"
  "exists (strip_hidden e) = exists e"
  by (cases e rule: is_file.cases; simp add: exists_def)+

lemma iterdir_strip_hidden:
  "iterdir (strip_hidden e) =
     map_sum id (\<lambda>es. map strip_hidden (filter (\<lambda>e. \<not> startswith_dot (name e)) es)) (iterdir e)"
  by (cases e rule: iterdir.cases) simp_all

lemma insort_key_map:
  "(\<And>y. f (g y) = f y) \<Longrightarrow>
     insort_key f (g x) (map g xs) = map g (insort_key f x xs)"
  by (induction xs) simp_all

lemma sort_key_map:
  "(\<And>y. f (g y) = f y) \<Longrightarrow> sort_key f (map g xs) = map g (sort_key f xs)"
  by (induction xs) (simp_all add: insort_key_map)

lemma sort_items_strip_hidden:
  "sort_items (map strip_hidden xs) = map strip_hidden (sort_items xs)"
  unfolding sort_items_def by (rule sort_key_map) simp

lemma filter_visible_strip_hidden:
  "filter (\<lambda>item. \<not> startswith_dot (name item))
     (map strip_hidden (filter (\<lambda>e. \<not> startswith_dot (name e)) es)) =
   map strip_hidden (filter (\<lambda>e. \<not> startswith_dot (name e)) es)"
  by (induction es) simp_all

lemma enumerate_map:
  "enumerate n (map g xs) = map (\<lambda>(i, x). (i, g x)) (enumerate n xs)"
  by (induction xs arbitrary: n) simp_all

lemma for_each_map:
  "for_each f (map h xs) s = for_each (\<lambda>x. f (h x)) xs s"
  by (induction xs arbitrary: s) (simp_all split: prod.splits option.splits)

lemma ascii_dir_label_strip_hidden:
  "ascii_dir_label False (strip_hidden item) = ascii_dir_label False item"
  by (cases item rule: iterdir.cases)
     (simp_all add: ascii_dir_label_def filter_visible_strip_hidden Let_def filter_map o_def)

lemma detailed_count_info_strip_hidden:
  "detailed_count_info False (strip_hidden item) = detailed_count_info False item"
  by (cases item rule: iterdir.cases)
     (simp_all add: detailed_count_info_def filter_visible_strip_hidden Let_def filter_map o_def)

lemma build_tree_strip_hidden:
  "build_tree env False max_depth (strip_hidden p) prefix is_last depth st =
   build_tree env False max_depth p prefix is_last depth st"
proof (induction p arbitrary: prefix is_last depth st rule: entry_children_induct)
  case (children p)
  show ?case
  proof (cases "max_depth \<noteq> None \<and> int depth > the max_depth")
    case True
    then show ?thesis by (simp add: build_tree_deep)
  next
    case deep: False
    show ?thesis
    proof (cases "iterdir p")
      case (Inl e)
      then have "iterdir (strip_hidden p) = Inl e" by (simp add: iterdir_strip_hidden)
      from build_tree_Inl [OF deep this] build_tree_Inl [OF deep Inl] show ?thesis by simp
    next
      case (Inr listing)
      define items where "items = sort_items (filter (\<lambda>item. \<not> startswith_dot (name item)) listing)"
      have sub: "set items \<subseteq> set listing" by (auto simp: items_def)
      from Inr have stripped: "iterdir (strip_hidden p) =
          Inr (map strip_hidden (filter (\<lambda>e. \<not> startswith_dot (name e)) listing))"
        by (simp add: iterdir_strip_hidden)
      have loop: "for_each (ascii_item env False max_depth (length (map strip_hidden items)) prefix is_last depth)
               (enumerate 0 (map strip_hidden items)) st =
            for_each (ascii_item env False max_depth (length items) prefix is_last depth)
               (enumerate 0 items) st"
        unfolding enumerate_map for_each_map
      proof (rule for_each_cong [OF refl refl])
        fix x u assume x_in: "x \<in> set (enumerate 0 items)"
        obtain i item where x: "x = (i, item)" by (cases x)
        with x_in sub have mem: "item \<in> set listing" by (auto dest: enumerate_member)
        show "ascii_item env False max_depth (length (map strip_hidden items)) prefix is_last depth
                (case x of (i, x) \<Rightarrow> (i, strip_hidden x)) u =
              ascii_item env False max_depth (length items) prefix is_last depth x u"
        proof (cases "is_dir item")
          case True
          with x children.IH [OF Inr mem] show ?thesis
            by (simp add: ascii_item_dir ascii_dir_label_strip_hidden)
        next
          case False
          with x show ?thesis by (simp add: ascii_item_file split: sum.splits)
        qed
      qed
      show ?thesis
        unfolding build_tree_Inr [OF deep stripped] build_tree_Inr [OF deep Inr]
        using loop
        by (simp add: filter_visible_strip_hidden sort_items_strip_hidden items_def Let_def)
    qed
  qed
qed

lemma visited_not_hidden:
  "x \<in> set (visited False max_depth depth p) \<Longrightarrow> \<not> startswith_dot (name x)"
proof (induction p arbitrary: depth rule: entry_children_induct)
  case (children p)
  show ?case
  proof (cases "max_depth \<noteq> None \<and> int depth > the max_depth")
    case True
    with children.prems show ?thesis by (simp add: visited_deep)
  next
    case deep: False
    show ?thesis
    proof (cases "iterdir p")
      case (Inl e)
      with children.prems show ?thesis by (simp add: visited_Inl)
    next
      case (Inr listing)
      from children.prems obtain item where "item \<in> set listing" "\<not> startswith_dot (name item)"
        and "x = item \<or> (is_dir item \<and> x \<in> set (visited False max_depth (depth + 1) item))"
        unfolding visited_Inr [OF deep Inr] by (auto split: if_splits)
      with children.IH [OF Inr] show ?thesis by blast
    qed
  qed
qed

lemma process_directory_strip_hidden:
  "process_directory env False max_depth (strip_hidden p) prefix is_last depth st =
   process_directory env False max_depth p prefix is_last depth st"
proof (induction p arbitrary: prefix is_last depth st rule: entry_children_induct)
  case (children p)
  show ?case
  proof (cases "max_depth \<noteq> None \<and> int depth > the max_depth")
    case True
    then show ?thesis by (simp add: process_directory_deep)
  next
    case deep: False
    show ?thesis
    proof (cases "iterdir p")
      case (Inl e)
      then have "iterdir (strip_hidden p) = Inl e" by (simp add: iterdir_strip_hidden)
      from process_directory_Inl [OF deep this] process_directory_Inl [OF deep Inl] show ?thesis by simp
    next
      case (Inr listing)
      define items where "items = sort_items (filter (\<lambda>item. \<not> startswith_dot (name item)) listing)"
      have sub: "set items \<subseteq> set listing" by (auto simp: items_def)
      from Inr have stripped: "iterdir (strip_hidden p) =
          Inr (map strip_hidden (filter (\<lambda>e. \<not> startswith_dot (name e)) listing))"
        by (simp add: iterdir_strip_hidden)
      have loop: "for_each (detailed_item env False max_depth (length (map strip_hidden items)) prefix is_last depth)
               (enumerate 0 (map strip_hidden items)) st =
            for_each (detailed_item env False max_depth (length items) prefix is_last depth)
               (enumerate 0 items) st"
        unfolding enumerate_map for_each_map
      proof (rule for_each_cong [OF refl refl])
        fix x u assume x_in: "x \<in> set (enumerate 0 items)"
        obtain i item where x: "x = (i, item)" by (cases x)
        with x_in sub have mem: "item \<in> set listing" by (auto dest: enumerate_member)
        show "detailed_item env False max_depth (length (map strip_hidden items)) prefix is_last depth
                (case x of (i, x) \<Rightarrow> (i, strip_hidden x)) u =
              detailed_item env False max_depth (length items) prefix is_last depth x u"
        proof (cases "is_dir item")
          case True
          with x children.IH [OF Inr mem] show ?thesis
            by (simp add: detailed_item_dir detailed_count_info_strip_hidden)
        next
          case False
          with x show ?thesis by (simp add: detailed_item_file split: sum.splits)
        qed
      qed
      show ?thesis
        unfolding process_directory_Inr [OF deep stripped] process_directory_Inr [OF deep Inr]
        using loop
        by (simp add: filter_visible_strip_hidden sort_items_strip_hidden items_def Let_def)
    qed
  qed
qed


text \<open>
  Claim C4, as the code has it. With \<^verbatim>\<open>show_hidden\<close> false, the ASCII and the detailed
  tree leave hidden entries out entirely: what they return for a file system is
  what they return for the file system without its hidden entries (and without
  everything below hidden directories), lines and totals alike; no visited entry
  has a name that begins with a dot; and the reported numbers of directories and of
  files and the total size are those of the visited entries. (The basic and the
  rich tree and the JSON and XML export take no such parameter.)
\<close>

theorem hidden_entries_excluded_from_counted_trees:
  "generate_ascii_tree env path False max_depth =
     generate_ascii_tree env (strip_hidden path) False max_depth \<and>
   generate_detailed_tree env path False max_depth =
     generate_detailed_tree env (strip_hidden path) False max_depth \<and>
   (\<forall>x \<in> set (visited False max_depth 0 path). \<not> startswith_dot (name x)) \<and>
   (generate_ascii_tree env path False max_depth = Inr out \<longrightarrow>
      directories out = int (length (visited_dirs False max_depth 0 path)) \<and>
      files out = int (length (visited_files False max_depth 0 path)) \<and>
      bytes out = sum_list (map size_or_zero (visited_files False max_depth 0 path))) \<and>
   (generate_detailed_tree env path False max_depth = Inr out' \<longrightarrow>
      directories out' = int (length (visited_dirs False max_depth 0 path)) \<and>
      files out' = int (length (visited_files False max_depth 0 path)) \<and>
      bytes out' = sum_list (map size_or_zero (visited_files False max_depth 0 path)))"
proof (intro conjI impI ballI)
  show "generate_ascii_tree env path False max_depth =
     generate_ascii_tree env (strip_hidden path) False max_depth"
    by (simp add: generate_ascii_tree_def ascii_walk_def build_tree_strip_hidden)
  show "generate_detailed_tree env path False max_depth =
     generate_detailed_tree env (strip_hidden path) False max_depth"
    unfolding generate_detailed_tree_def detailed_walk_def process_directory_strip_hidden
      strip_hidden_simps ..
next
  fix x assume "x \<in> set (visited False max_depth 0 path)"
  then show "\<not> startswith_dot (name x)" by (rule visited_not_hidden)
next
  assume "generate_ascii_tree env path False max_depth = Inr out"
  then show "directories out = int (length (visited_dirs False max_depth 0 path))"
    and "files out = int (length (visited_files False max_depth 0 path))"
    and "bytes out = sum_list (map size_or_zero (visited_files False max_depth 0 path))"
    by (rule generate_ascii_tree_totals)+
next
  assume "generate_detailed_tree env path False max_depth = Inr out'"
  then show "directories out' = int (length (visited_dirs False max_depth 0 path))"
    and "files out' = int (length (visited_files False max_depth 0 path))"
    and "bytes out' = sum_list (map size_or_zero (visited_files False max_depth 0 path))"
    by (rule generate_detailed_tree_totals)+
qed

theorem hidden_entries_excluded_from_counted_trees_witness:
  "strip_hidden example_hidden =
     Dir ''h'' ''/h'' \<lparr>st_size = 4096, st_mtime = 0\<rparr>
       [File ''a.txt'' ''/h/a.txt'' (Inr \<lparr>st_size = 10, st_mtime = 0\<rparr>)] \<and>
   visited False None 0 example_hidden =
     [File ''a.txt'' ''/h/a.txt'' (Inr \<lparr>st_size = 10, st_mtime = 0\<rparr>)] \<and>
   generate_ascii_tree example_env example_hidden False None =
     generate_ascii_tree example_env (strip_hidden example_hidden) False None \<and>
   map_sum id directories (generate_ascii_tree example_env example_hidden False None) = Inr 0 \<and>
   map_sum id files (generate_ascii_tree example_env example_hidden False None) = Inr 1 \<and>
   map_sum id bytes (generate_ascii_tree example_env example_hidden False None) = Inr 10 \<and>
   map_sum id files (generate_detailed_tree example_env example_hidden False None) = Inr 1 \<and>
   map_sum id bytes (generate_detailed_tree example_env example_hidden False None) = Inr 10"
proof -
  have s: "strip_hidden example_hidden =
     Dir ''h'' ''/h'' \<lparr>st_size = 4096, st_mtime = 0\<rparr>
       [File ''a.txt'' ''/h/a.txt'' (Inr \<lparr>st_size = 10, st_mtime = 0\<rparr>)]"
    by (simp add: example_hidden_def)
  have v: "visited False None 0 example_hidden =
     [File ''a.txt'' ''/h/a.txt'' (Inr \<lparr>st_size = 10, st_mtime = 0\<rparr>)]"
    by code_simp
  have "\<not> isl (generate_ascii_tree example_env example_hidden False None)"
    by code_simp
  then obtain out where a: "generate_ascii_tree example_env example_hidden False None = Inr out"
    by (cases "generate_ascii_tree example_env example_hidden False None") auto
  have "\<not> isl (generate_detailed_tree example_env example_hidden False None)"
    by code_simp
  then obtain out' where d: "generate_detailed_tree example_env example_hidden False None = Inr out'"
    by (cases "generate_detailed_tree example_env example_hidden False None") auto
  note inst = hidden_entries_excluded_from_counted_trees
               [of example_env example_hidden None out out']
  from inst a d v
  have counts: "directories out = 0 \<and> files out = 1 \<and> bytes out = 10 \<and>
                files out' = 1 \<and> bytes out' = 10"
    by (simp add: visited_files_def visited_dirs_def size_or_zero_def)
  from inst
  have same: "generate_ascii_tree example_env example_hidden False None =
     generate_ascii_tree example_env (strip_hidden example_hidden) False None"
    by blast
  from a counts
  have ca: "map_sum id directories (generate_ascii_tree example_env example_hidden False None) = Inr 0"
      "map_sum id files (generate_ascii_tree example_env example_hidden False None) = Inr 1"
      "map_sum id bytes (generate_ascii_tree example_env example_hidden False None) = Inr 10"
    by simp_all
  from d counts
  have cd: "map_sum id files (generate_detailed_tree example_env example_hidden False None) = Inr 1"
      "map_sum id bytes (generate_detailed_tree example_env example_hidden False None) = Inr 10"
    by simp_all
  from s v same ca cd show ?thesis by (intro conjI)
qed

text \<open>
  The claim as it is written (every walk with hidden entries excluded) fails for the
  JSON format: asked for without \<^verbatim>\<open>--all\<close>, it still returns the hidden file and
  the hidden directory, and the size of the root, 22, counts their 12 bytes.
\<close>

theorem json_includes_hidden_counterexample:
  "main_format example_env Json example_hidden None False =
     Inr (JsonTree
       \<lparr>tree_dict =
          DirectoryD ''h'' ''/h'' 22 0
            [DirectoryD ''.git'' ''/h/.git'' 9 0 [FileD ''config'' ''/h/.git/config'' 9 0],
             FileD ''.env'' ''/h/.env'' 3 0,
             FileD ''a.txt'' ''/h/a.txt'' 10 0],
        metadata_generated = ''2024-01-01T00:00:00'',
        metadata_source_path = ''/h'',
        metadata_max_depth = None\<rparr>)"
  by code_simp

section \<open>Failures during the walk\<close>

lemma denials_only_Inl: "denials_only p \<Longrightarrow> iterdir p = Inl e \<Longrightarrow> e = PermissionError"
  by (cases p rule: iterdir.cases) simp_all

lemma denials_only_Inr:
  "denials_only p \<Longrightarrow> iterdir p = Inr es \<Longrightarrow> x \<in> set es \<Longrightarrow> is_dir x \<Longrightarrow> denials_only x"
  by (cases p rule: iterdir.cases) (simp_all add: list_all_iff)

lemma for_each_no_exception:
  "(\<And>x u. x \<in> set xs \<Longrightarrow> snd (f x u) = None) \<Longrightarrow> snd (for_each f xs s) = None"
proof (induction xs arbitrary: s)
  case Nil
  then show ?case by simp
next
  case (Cons x xs)
  obtain s1 r where fx: "f x s = (s1, r)" by (cases "f x s")
  with Cons.prems [of x s] have "r = None" by simp
  with fx Cons.IH [of s1] Cons.prems show ?case by simp
qed

lemma except_PermissionError_no_exception:
  "snd r = None \<or> snd r = Some PermissionError \<Longrightarrow> snd (except_PermissionError h r) = None"
  by (cases r) (auto simp: except_PermissionError_def split: option.splits)

lemma walk_directory_completes:
  "denials_only p \<Longrightarrow> snd (walk_directory max_depth p prefix depth ls) = None"
proof (induction p arbitrary: prefix depth ls rule: entry_children_induct)
  case (children p)
  show ?case
  proof (cases "max_depth \<noteq> None \<and> int depth > the max_depth")
    case True
    then show ?thesis by (simp add: walk_directory_deep)
  next
    case deep: False
    show ?thesis
    proof (cases "iterdir p")
      case (Inl e)
      with children.prems have "e = PermissionError" by (simp add: denials_only_Inl)
      then show ?thesis
        unfolding walk_directory_Inl [OF deep Inl] by simp
    next
      case (Inr listing)
      show ?thesis
        unfolding walk_directory_Inr [OF deep Inr]
      proof (rule except_PermissionError_no_exception, rule disjI1, rule for_each_no_exception)
        fix x :: "nat \<times> entry" and u
        assume x_in: "x \<in> set (enumerate 0 (sorted_paths listing))"
        obtain i item where x: "x = (i, item)" by (cases x)
        with x_in have mem: "item \<in> set listing" by (auto dest: enumerate_member)
        show "snd ((case x of (i, item) \<Rightarrow> \<lambda>tree_lines.
              let is_last = (int i = int (length (sorted_paths listing)) - 1);
                  connector = (if is_last then corner else tee);
                  tree_lines = tree_lines @ [prefix @ connector @ name item]
              in if is_dir item then
                   (let extension = (if is_last then blank else bar)
                    in walk_directory max_depth item (prefix @ extension) (depth + 1) tree_lines)
                 else (tree_lines, None)) u) = None"
        proof (cases "is_dir item")
          case True
          from denials_only_Inr [OF children.prems Inr mem True]
          have "denials_only item" .
          from children.IH [OF Inr mem this] x True show ?thesis
            by (simp add: Let_def)
        next
          case False
          with x show ?thesis by (simp add: Let_def)
        qed
      qed
    qed
  qed
qed

lemma build_tree_completes:
  "denials_only p \<Longrightarrow> snd (build_tree env show_hidden max_depth p prefix is_last depth st) = None"
proof (induction p arbitrary: prefix is_last depth st rule: entry_children_induct)
  case (children p)
  show ?case
  proof (cases "max_depth \<noteq> None \<and> int depth > the max_depth")
    case True
    then show ?thesis by (simp add: build_tree_deep)
  next
    case deep: False
    show ?thesis
    proof (cases "iterdir p")
      case (Inl e)
      with children.prems have "e = PermissionError" by (simp add: denials_only_Inl)
      then show ?thesis
        unfolding build_tree_Inl [OF deep Inl] by simp
    next
      case (Inr listing)
      define items where "items = sort_items (if \<not> show_hidden
                          then filter (\<lambda>item. \<not> startswith_dot (name item)) listing else listing)"
      have sub: "set items \<subseteq> set listing" by (auto simp: items_def)
      have "snd (for_each (ascii_item env show_hidden max_depth (length items) prefix is_last depth)
               (enumerate 0 items) st) = None"
      proof (rule for_each_no_exception)
        fix x :: "nat \<times> entry" and u
        assume x_in: "x \<in> set (enumerate 0 items)"
        obtain i item where x: "x = (i, item)" by (cases x)
        with x_in sub have mem: "item \<in> set listing" by (auto dest: enumerate_member)
        show "snd (ascii_item env show_hidden max_depth (length items) prefix is_last depth x u) = None"
        proof (cases "is_dir item")
          case True
          from denials_only_Inr [OF children.prems Inr mem True]
          have "denials_only item" .
          from children.IH [OF Inr mem this] x True show ?thesis
            by (simp add: ascii_item_dir)
        next
          case False
          with x show ?thesis by (simp add: ascii_item_file split: sum.splits)
        qed
      qed
      then show ?thesis
        unfolding build_tree_Inr [OF deep Inr] items_def [symmetric] Let_def
        by (simp add: except_PermissionError_no_exception)
    qed
  qed
qed

declare method2_build_tree.simps [simp del]

lemma method2_build_tree_limit:
  "max_depth \<noteq> None \<and> int current_depth \<ge> the max_depth \<Longrightarrow>
     method2_build_tree max_depth p parent_node current_depth = (parent_node, None)"
  by (subst method2_build_tree.simps) simp

lemma method2_build_tree_Inl:
  "\<not> (max_depth \<noteq> None \<and> int current_depth \<ge> the max_depth) \<Longrightarrow> iterdir p = Inl e \<Longrightarrow>
     method2_build_tree max_depth p parent_node current_depth =
       except_PermissionError
         (\<lambda>parent_node. tree_add parent_node (Tree ''[red][Permission Denied][/red]'' []))
         (parent_node, Some e)"
  by (subst method2_build_tree.simps) (cases max_depth; simp)

lemma method2_build_tree_Inr:
  "\<not> (max_depth \<noteq> None \<and> int current_depth \<ge> the max_depth) \<Longrightarrow> iterdir p = Inr listing \<Longrightarrow>
     method2_build_tree max_depth p parent_node current_depth =
       except_PermissionError
         (\<lambda>parent_node. tree_add parent_node (Tree ''[red][Permission Denied][/red]'' []))
         (for_each (\<lambda>item parent_node.
                if is_dir item then
                  (case method2_build_tree max_depth item
                          (Tree (''[bold cyan]'' @ name item @ ''[/bold cyan]'') [])
                          (current_depth + 1) of
                     (dir_node, raised) \<Rightarrow> (tree_add parent_node dir_node, raised))
                else
                  (case stat item of
                     Inl e \<Rightarrow> (parent_node, Some e)
                   | Inr sr \<Rightarrow>
                       (let sz = st_size sr;
                            size_str = (if sz > 0 then '' ('' @ fmt_thousands sz @ '' bytes)''
                                        else '' (empty)'')
                        in (tree_add parent_node
                              (Tree (''[green]'' @ name item @ ''[/green][dim]'' @ size_str
                                     @ ''[/dim]'') []), None))))
              (sort_items listing) parent_node)"
  by (subst method2_build_tree.simps) (cases max_depth; simp)

lemma readable_files_Inr:
  "readable_files p \<Longrightarrow> iterdir p = Inr es \<Longrightarrow> x \<in> set es \<Longrightarrow> readable_files x"
  by (cases p rule: iterdir.cases) (simp_all add: list_all_iff)

lemma readable_files_stat:
  "readable_files x \<Longrightarrow> \<not> is_dir x \<Longrightarrow> \<exists>sr. stat x = Inr sr"
  by (cases x rule: readable_files.cases) simp_all

lemma rich_build_tree_completes:
  "denials_only p \<Longrightarrow> snd (rich_build_tree env max_depth p node depth) = None"
proof (induction p arbitrary: node depth rule: entry_children_induct)
  case (children p)
  show ?case
  proof (cases "max_depth \<noteq> None \<and> int depth \<ge> the max_depth")
    case True
    then show ?thesis by (simp add: rich_build_tree_limit)
  next
    case limit: False
    show ?thesis
    proof (cases "iterdir p")
      case (Inl e)
      with children.prems have "e = PermissionError" by (simp add: denials_only_Inl)
      then show ?thesis
        unfolding rich_build_tree_Inl [OF limit Inl] by simp
    next
      case (Inr listing)
      show ?thesis
        unfolding rich_build_tree_Inr [OF limit Inr]
      proof (rule except_PermissionError_no_exception, rule disjI1, rule for_each_no_exception)
        fix item u
        assume "item \<in> set (sort_items listing)"
        then have mem: "item \<in> set listing" by (simp add: sort_items_def)
        show "snd (if is_dir item then
                  (case rich_build_tree env max_depth item (Tree (rich_dir_label item) [])
                          (depth + 1) of
                     (dir_node, raised) \<Rightarrow> (tree_add u dir_node, raised))
                else
                  (let file_label = ''[green]'' @ name item @ ''[/green] '' @ rich_size_str env item
                   in (tree_add u (Tree file_label []), None))) = None"
        proof (cases "is_dir item")
          case True
          from denials_only_Inr [OF children.prems Inr mem True]
          have "denials_only item" .
          from children.IH [OF Inr mem this, of "Tree (rich_dir_label item) []" "depth + 1"] True
          show ?thesis
            by (auto split: prod.splits)
        next
          case False
          then show ?thesis by (simp add: Let_def)
        qed
      qed
    qed
  qed
qed

lemma method2_build_tree_completes:
  "denials_only p \<Longrightarrow> readable_files p \<Longrightarrow>
     snd (method2_build_tree max_depth p node depth) = None"
proof (induction p arbitrary: node depth rule: entry_children_induct)
  case (children p)
  show ?case
  proof (cases "max_depth \<noteq> None \<and> int depth \<ge> the max_depth")
    case True
    then show ?thesis by (simp add: method2_build_tree_limit)
  next
    case limit: False
    show ?thesis
    proof (cases "iterdir p")
      case (Inl e)
      with children.prems have "e = PermissionError" by (simp add: denials_only_Inl)
      then show ?thesis
        unfolding method2_build_tree_Inl [OF limit Inl] by simp
    next
      case (Inr listing)
      show ?thesis
        unfolding method2_build_tree_Inr [OF limit Inr]
      proof (rule except_PermissionError_no_exception, rule disjI1, rule for_each_no_exception)
        fix item u
        assume "item \<in> set (sort_items listing)"
        then have mem: "item \<in> set listing" by (simp add: sort_items_def)
        from readable_files_Inr [OF children.prems(2) Inr mem]
        have readable: "readable_files item" .
        show "snd (if is_dir item then
                  (case method2_build_tree max_depth item
                          (Tree (''[bold cyan]'' @ name item @ ''[/bold cyan]'') [])
                          (depth + 1) of
                     (dir_node, raised) \<Rightarrow> (tree_add u dir_node, raised))
                else
                  (case stat item of
                     Inl e \<Rightarrow> (u, Some e)
                   | Inr sr \<Rightarrow>
                       (let sz = st_size sr;
                            size_str = (if sz > 0 then '' ('' @ fmt_thousands sz @ '' bytes)''
                                        else '' (empty)'')
                        in (tree_add u
                              (Tree (''[green]'' @ name item @ ''[/green][dim]'' @ size_str
                                     @ ''[/dim]'') []), None)))) = None"
        proof (cases "is_dir item")
          case True
          from denials_only_Inr [OF children.prems(1) Inr mem True]
          have "denials_only item" .
          from children.IH [OF Inr mem this readable,
                 of "Tree (''[bold cyan]'' @ name item @ ''[/bold cyan]'') []" "depth + 1"] True
          show ?thesis
            by (auto split: prod.splits)
        next
          case False
          with readable_files_stat [OF readable False] show ?thesis
            by (auto simp: Let_def)
        qed
      qed
    qed
  qed
qed

text \<open>
  Claim C6. In \<^verbatim>\<open>build_tree\<close> of \<^verbatim>\<open>method2/directory_tree.py\<close> the call
  \<^verbatim>\<open>item.stat()\<close> of a file stands in the loop with no handler of its own, and the
  handler of the directory takes \<^verbatim>\<open>PermissionError\<close> only. For a dangling symbolic
  link \<^verbatim>\<open>is_dir()\<close> answers \<open>False\<close> and \<^verbatim>\<open>stat()\<close> raises \<^verbatim>\<open>FileNotFoundError\<close>:
  the exception leaves the walk, and no tree is printed, although the root exists and
  the file after the link can be read. \<^verbatim>\<open>build_tree\<close> of
  \<^verbatim>\<open>create_rich_directory_tree\<close> in \<^verbatim>\<open>directory_tree_generator.py\<close> guards the same
  call and draws both entries.
\<close>

theorem method2_unguarded_stat_aborts_walk:
  "exists example_dangling \<and> is_dir example_dangling \<and> portable example_dangling \<and>
   method2_create_rich_directory_tree example_dangling None = Inl FileNotFoundError \<and>
   create_rich_directory_tree example_env example_dangling None =
     Inr (Tree ''[bold bright_blue]d[/bold bright_blue]''
            [Tree ''[green]a.lnk[/green] [red](access denied)[/red]'' [],
             Tree ''[green]b.txt[/green] [dim](3 B)[/dim]'' []])"
  by code_simp

end
